theory Spec2Isabelle
  imports Complex_Main
begin

section \<open>Conventions\<close>

text \<open>
  The C++ type \<^verbatim>\<open>double\<close> is read as \<^typ>\<open>real\<close>: sums, products and
  comparisons are exact. \<^verbatim>\<open>unsigned\<close> indices are \<^typ>\<open>nat\<close>, \<^verbatim>\<open>int\<close>
  values are \<^typ>\<open>int\<close>. Conversions from \<^verbatim>\<open>double\<close> to an integer type and the
  \<^verbatim>\<open>round\<close> of \<^verbatim>\<open><cmath>\<close> are written out below.
\<close>

definition c_round :: "real \<Rightarrow> int" where
  \<comment> \<open>\<^verbatim>\<open>round\<close>: to the nearest integer, halfway cases away from zero\<close>
  "c_round x = (if 0 \<le> x then \<lfloor>x + 1 / 2\<rfloor> else - \<lfloor>- x + 1 / 2\<rfloor>)"

definition c_trunc :: "real \<Rightarrow> int" where
  \<comment> \<open>conversion of a \<^verbatim>\<open>double\<close> to \<^verbatim>\<open>int\<close>: the fractional part is discarded\<close>
  "c_trunc x = (if 0 \<le> x then \<lfloor>x\<rfloor> else - \<lfloor>- x\<rfloor>)"

section \<open>ExchangePatterns.cpp\<close>

text \<open>
  \<^verbatim>\<open>random.RandU01()\<close> is the host's generator. The values it hands out, in the
  order of the calls, are a parameter of the model: a list holding the draws that are
  observed. A loop that is still running when the list ends has not returned within the
  observation, which is the outcome \<open>OutOfDraws\<close>. The array \<^verbatim>\<open>ind\<close> belongs to the
  caller; a store past its end is the outcome \<open>OutOfBounds\<close>.
\<close>

datatype getList_error = OutOfDraws | OutOfBounds

definition getList_stat :: "int list \<Rightarrow> nat \<Rightarrow> nat" where
  \<comment> \<open>\<^verbatim>\<open>for(int j=0;j<i;j++) if(ind[i]==ind[j]) stat=1;\<close> entered with \<^verbatim>\<open>stat=0\<close>\<close>
  "getList_stat ind i = fold (\<lambda>j stat. if ind ! i = ind ! j then 1 else stat) [0..<i] 0"

fun getList_while :: "real list \<Rightarrow> int \<Rightarrow> nat \<Rightarrow> int list \<Rightarrow> getList_error + (real list \<times> int list)" where
  "getList_while [] nrepl i ind = Inl OutOfDraws"
| "getList_while (u # us) nrepl i ind =
     (let ind' = ind[i := c_trunc (u * real_of_int nrepl)] in
      if getList_stat ind' i \<noteq> 0 then getList_while us nrepl i ind'
      else Inr (us, ind'))"

fun getList_for :: "real list \<Rightarrow> int \<Rightarrow> nat \<Rightarrow> nat \<Rightarrow> int list \<Rightarrow> getList_error + (real list \<times> int list)" where
  \<comment> \<open>the third argument is \<^verbatim>\<open>i\<close>, the fourth the number of iterations still to run\<close>
  "getList_for us nrepl i 0 ind = Inr (us, ind)"
| "getList_for us nrepl i (Suc k) ind =
     (case getList_while us nrepl i ind of
        Inl e \<Rightarrow> Inl e
      | Inr (us', ind') \<Rightarrow> getList_for us' nrepl (Suc i) k ind')"

definition getList :: "real list \<Rightarrow> int list \<Rightarrow> int \<Rightarrow> getList_error + (real list \<times> int list)" where
  "getList us ind nrepl =
     (if length ind < nat nrepl then Inl OutOfBounds
      else getList_for us nrepl 0 (nat nrepl) ind)"

section \<open>EMMI.cpp: data\<close>

type_synonym vec3 = "real \<times> real \<times> real"
type_synonym vec6 = "real \<times> real \<times> real \<times> real \<times> real \<times> real"

text \<open>
  The members of class \<^verbatim>\<open>EMMI\<close> that the functions below read or write. A member
  \<^verbatim>\<open>x_\<close> of the source is the field \<open>x\<close>; \<^verbatim>\<open>size_\<close> is \<open>size_comm\<close>.
\<close>

record emmi =
  kbt :: real
  GMM_m_type :: "nat list"
  GMM_d_m :: "vec3 list"
  GMM_d_w :: "real list"
  GMM_d_cov :: "vec6 list"
  GMM_d_beta :: "int list"
  ovmd :: "real list"
  ovdd :: "real list"
  err_f :: "real list"
  exp_f :: "real list"
  cfact :: real
  nrep :: nat
  replica :: nat
  sigma :: "real list"
  sigma_mean :: "real list"
  sigma_min :: "real list"
  sigma_max :: "real list"
  sigma0 :: "real list"
  dsigma :: real
  pre_fact :: "real list"
  inv_cov_md :: "vec6 list"
  nl_cutoff :: real
  no_aver :: bool
  nl :: "nat list"
  size_comm :: nat
  rank :: nat
  pbc :: bool
  MCstride :: int
  MCaccept :: nat
  MCcut :: real
  MCneigh :: "nat list list"
  do_sampling :: bool
  prior :: real
  nregres :: nat
  scale :: real
  no_weights :: bool
  dexp :: real
  tab_exp :: "real list"

text \<open>
  What the host (the base class \<^verbatim>\<open>Colvar\<close>) provides at the time of a call: the
  atoms' positions, the periodic-boundary distance primitive, the step counter and the
  replica-exchange flag. The primitive is not part of these sources and is a parameter.
\<close>

record host =
  getPosition :: "vec3 list"
  pbcDistance :: "vec3 \<Rightarrow> vec3 \<Rightarrow> vec3"
  getStep :: int
  getExchangeStep :: bool

definition delta :: "vec3 \<Rightarrow> vec3 \<Rightarrow> vec3" where
  \<comment> \<open>Modelled from the spec: \<^verbatim>\<open>delta\<close> of the host's vector class, which is not in
      these sources, is the raw difference of the second and the first argument.\<close>
  "delta v1 v2 =
     (case (v1, v2) of ((x1, y1, z1), (x2, y2, z2)) \<Rightarrow> (x2 - x1, y2 - y1, z2 - z1))"

definition modulo :: "vec3 \<Rightarrow> real" where
  \<comment> \<open>Modelled from the spec: \<^verbatim>\<open>Vector::modulo\<close>, the Euclidean length.\<close>
  "modulo v = (case v of (x, y, z) \<Rightarrow> sqrt (x * x + y * y + z * z))"

definition vminus :: "vec3 \<Rightarrow> vec3 \<Rightarrow> vec3" where
  \<comment> \<open>\<^verbatim>\<open>operator-\<close> of the vector class\<close>
  "vminus a b = delta b a"


definition vsum :: "real list \<Rightarrow> real list \<Rightarrow> real list" where
  \<comment> \<open>Modelled from the spec: a collective reduction (\<^verbatim>\<open>Sum\<close>) over a communicator,
      which is not in these sources, leaves in the caller's buffer its own vector plus,
      entry by entry, the sum of the vectors the other participants passed.\<close>
  "vsum own others = map2 (+) own others"

section \<open>EMMI.cpp: reading the data GMM\<close>

datatype emmi_error =
    CovarianceNotPositiveDefined
  | WeightMustBePositive
  | BetaMustBe0Or1

definition check_GMM_d :: "vec6 \<Rightarrow> real \<Rightarrow> emmi_error + unit" where
  "check_GMM_d cov w =
     (case cov of (c0, c1, c2, c3, c4, c5) \<Rightarrow>
        let pm1 = c0;
            pm2 = c0 * c3 - c1 * c1;
            pm3 = c0 * (c3 * c5 - c4 * c4) - c1 * (c1 * c5 - c4 * c2) + c2 * (c1 * c4 - c3 * c2)
        in if pm1 \<le> 0 \<or> pm2 \<le> 0 \<or> pm3 \<le> 0 then Inl CovarianceNotPositiveDefined
           else if w < 0 then Inl WeightMustBePositive
           else Inr ())"

text \<open>One line of the GMM file, as the external reader hands its fields over.\<close>

record gmm_line =
  Id :: int
  Weight :: real
  Mean :: vec3
  Cov :: vec6
  Beta :: int

fun get_GMM_d :: "gmm_line list \<Rightarrow> emmi \<Rightarrow> emmi_error + emmi" where
  "get_GMM_d [] st = Inr st"
| "get_GMM_d (l # ls) st =
     (case check_GMM_d (Cov l) (Weight l) of
        Inl e \<Rightarrow> Inl e
      | Inr _ \<Rightarrow>
          if Beta l \<noteq> 0 \<and> Beta l \<noteq> 1 then Inl BetaMustBe0Or1
          else get_GMM_d ls
                 (st\<lparr>GMM_d_m := GMM_d_m st @ [Mean l],
                     GMM_d_cov := GMM_d_cov st @ [Cov l],
                     GMM_d_w := GMM_d_w st @ [Weight l],
                     GMM_d_beta := GMM_d_beta st @ [Beta l]\<rparr>))"

section \<open>EMMI.cpp: overlaps\<close>



definition displacement :: "emmi \<Rightarrow> host \<Rightarrow> vec3 \<Rightarrow> vec3 \<Rightarrow> vec3" where
  \<comment> \<open>\<^verbatim>\<open>if(pbc_) md = pbcDistance(d_m, m_m); else md = delta(d_m, m_m);\<close>\<close>
  "displacement st h m_m d_m = (if pbc st then pbcDistance h d_m m_m else delta d_m m_m)"

definition quadratic_form :: "vec3 \<Rightarrow> vec6 \<Rightarrow> real \<times> vec3" where
  \<comment> \<open>the product \<^verbatim>\<open>md * inv_cov_md * md\<close> together with \<^verbatim>\<open>(p_x, p_y, p_z)\<close>\<close>
  "quadratic_form md icov =
     (case (md, icov) of ((m0, m1, m2), (i0, i1, i2, i3, i4, i5)) \<Rightarrow>
        let p_x = m0 * i0 + m1 * i1 + m2 * i2;
            p_y = m0 * i1 + m1 * i3 + m2 * i4;
            p_z = m0 * i2 + m1 * i4 + m2 * i5
        in (m0 * p_x + m1 * p_y + m2 * p_z, (p_x, p_y, p_z)))"


definition get_exp_overlap :: "emmi \<Rightarrow> host \<Rightarrow> vec3 \<Rightarrow> vec3 \<Rightarrow> vec6 \<Rightarrow> real" where
  "get_exp_overlap st h m_m d_m icov = fst (quadratic_form (displacement st h m_m d_m) icov)"


section \<open>EMMI.cpp: Monte Carlo neighbourhoods\<close>

definition prepareCollectiveMC :: "emmi \<Rightarrow> emmi" where
  "prepareCollectiveMC st =
     fold (\<lambda>i s.
             let m_i = GMM_d_m s ! i;
                 neigh = fold (\<lambda>j neigh.
                                 let m_j = GMM_d_m s ! j;
                                     dist = modulo (vminus m_i m_j)
                                 in if dist \<le> MCcut s then neigh @ [j] else neigh)
                          [0..<length (GMM_d_m s)] []
             in s\<lparr>MCneigh := MCneigh s @ [neigh]\<rparr>)
          [0..<length (GMM_d_m st)] st"

section \<open>EMMI.cpp: the neighbour list\<close>

text \<open>
  The loop over the atoms for one data component \<open>id_d\<close>. \<^verbatim>\<open>ov_m\<close> is a
  \<^verbatim>\<open>std::map<double, unsigned>\<close>: one atom per key, a later atom with the same
  overlap replaces the earlier one. An index that the conversion to \<^verbatim>\<open>unsigned\<close>
  cannot hold as an entry of the table (negative, or past the end) skips the atom.
\<close>

definition nl_atom :: "emmi \<Rightarrow> host \<Rightarrow> nat \<Rightarrow> nat \<Rightarrow>
    real list \<times> (real \<rightharpoonup> nat) \<times> real \<Rightarrow> real list \<times> (real \<rightharpoonup> nat) \<times> real" where
  "nl_atom st h id_d im acc =
     (case acc of (ov_l, ov_m, ov_tot) \<Rightarrow>
        let GMM_d_size = length (GMM_d_m st);
            kaux = GMM_m_type st ! im * GMM_d_size + id_d;
            expov = get_exp_overlap st h (GMM_d_m st ! id_d) (getPosition h ! im)
                      (inv_cov_md st ! kaux);
            itab = c_round (0.5 * expov / dexp st)
        in if itab < 0 \<or> int (length (tab_exp st)) \<le> itab then (ov_l, ov_m, ov_tot)
           else let ov = pre_fact st ! kaux * tab_exp st ! nat itab
                in (ov_l @ [ov], ov_m(ov \<mapsto> im), ov_tot + ov))"

definition nl_candidates :: "emmi \<Rightarrow> host \<Rightarrow> nat \<Rightarrow> real list \<times> (real \<rightharpoonup> nat) \<times> real" where
  "nl_candidates st h id_d =
     fold (nl_atom st h id_d) [0..<length (GMM_m_type st)] ([], Map.empty, 0)"

fun nl_integrate :: "real list \<Rightarrow> real \<Rightarrow> real \<Rightarrow> (real \<rightharpoonup> nat) \<Rightarrow> (real \<rightharpoonup> nat)" where
  \<comment> \<open>\<^verbatim>\<open>res += ov_l[i]; if(res >= ov_cut) break; else ov_m.erase(ov_l[i]);\<close>\<close>
  "nl_integrate [] res ov_cut ov_m = ov_m"
| "nl_integrate (x # xs) res ov_cut ov_m =
     (let res' = res + x in
      if res' \<ge> ov_cut then ov_m else nl_integrate xs res' ov_cut (ov_m(x := None)))"

definition nl_retained :: "emmi \<Rightarrow> host \<Rightarrow> nat \<Rightarrow> (real \<times> nat) list" where
  \<comment> \<open>what is left in \<^verbatim>\<open>ov_m\<close>, in the order of the keys, as the final loop reads it\<close>
  "nl_retained st h id_d =
     (case nl_candidates st h id_d of (ov_l, ov_m, ov_tot) \<Rightarrow>
        if length ov_l = 0 then []
        else let ov_cut = ov_tot * nl_cutoff st;
                 sorted_l = sort ov_l;
                 ov_m' = nl_integrate sorted_l 0 ov_cut ov_m
             in map (\<lambda>k. (k, the (ov_m' k))) (filter (\<lambda>k. ov_m' k \<noteq> None) (remdups sorted_l)))"

definition nl_component :: "emmi \<Rightarrow> host \<Rightarrow> nat \<Rightarrow> nat list" where
  \<comment> \<open>\<^verbatim>\<open>nl_l.push_back(id*GMM_m_size+it->second)\<close> for each entry left\<close>
  "nl_component st h id_d =
     map (\<lambda>(k, im). id_d * length (GMM_m_type st) + im) (nl_retained st h id_d)"

definition nl_local :: "emmi \<Rightarrow> host \<Rightarrow> nat list" where
  \<comment> \<open>\<^verbatim>\<open>for(unsigned id=rank_; id<GMM_d_size; id+=size_)\<close>\<close>
  "nl_local st h =
     concat (map (nl_component st h)
       (filter (\<lambda>id_d. rank st \<le> id_d \<and> (id_d - rank st) mod size_comm st = 0)
          [0..<length (GMM_d_m st)]))"

definition update_neighbor_list :: "emmi \<Rightarrow> host \<Rightarrow> (nat \<Rightarrow> nat list) \<Rightarrow> emmi" where
  \<comment> \<open>the third argument gives the local lists of the other ranks, which the
      \<^verbatim>\<open>Allgatherv\<close> places in the order of the ranks\<close>
  "update_neighbor_list st h nl_of_rank =
     st\<lparr>nl := concat (map (\<lambda>r. if r = rank st then nl_local st h else nl_of_rank r)
                        [0..<size_comm st])\<rparr>"

section \<open>EMMI.cpp: the Monte Carlo move\<close>

text \<open>
  The three values \<^verbatim>\<open>random_.RandU01()\<close> returns during one move, in the order
  of the calls; the third is read only when \<^verbatim>\<open>doAccept\<close> asks for it.
\<close>

record mc_draws =
  u_gmm :: real
  u_shift :: real
  u_accept :: real

text \<open>What the other replicas pass to the two sums over \<^verbatim>\<open>multi_sim_comm\<close>.\<close>

record mc_peers =
  replicas_sigma :: "real list"
  replicas_MCaccept :: nat

definition doAccept :: "emmi \<Rightarrow> real \<Rightarrow> real \<Rightarrow> real \<Rightarrow> bool" where
  "doAccept st s oldE newE =
     (let delta = (newE - oldE) / kbt st in
      if delta < 0 then True else s < exp (- delta))"

definition check_boundaries :: "real \<Rightarrow> real \<Rightarrow> real \<Rightarrow> real" where
  \<comment> \<open>\<^verbatim>\<open>if(new_s > sigma_max_[i]) {new_s = 2.0 * sigma_max_[i] - new_s;}\<close>
      \<^verbatim>\<open>if(new_s < sigma_min_[i]) {new_s = 2.0 * sigma_min_[i] - new_s;}\<close>\<close>
  "check_boundaries smin smax new_s =
     (let s1 = (if new_s > smax then 2 * smax - new_s else new_s)
      in if s1 < smin then 2 * smin - s1 else s1)"

definition mc_neighbor :: "emmi \<Rightarrow> nat \<Rightarrow> real \<Rightarrow> nat \<Rightarrow>
    real list \<times> real \<times> real \<Rightarrow> real list \<times> real \<times> real" where
  \<comment> \<open>the body of the loop on the neighbours, on \<^verbatim>\<open>(new_sigma, old_ene, new_ene)\<close>\<close>
  "mc_neighbor st nGMM shift j acc =
     (case acc of (new_sigma, old_ene, new_ene) \<Rightarrow>
        let i = MCneigh st ! nGMM ! j;
            pre = 0.5 * kbt st * (scale st * ovmd st ! i - ovdd st ! i)
                    * (scale st * ovmd st ! i - ovdd st ! i);
            old_s2 = sigma_mean st ! i * sigma_mean st ! i + sigma st ! i * sigma st ! i;
            new_s = check_boundaries (sigma_min st ! i) (sigma_max st ! i) (sigma st ! i + shift);
            new_s2 = sigma_mean st ! i * sigma_mean st ! i + new_s * new_s
        in (new_sigma @ [new_s],
            old_ene + (pre / old_s2 + kbt st * prior st * ln old_s2),
            new_ene + (pre / new_s2 + kbt st * prior st * ln new_s2)))"

definition mc_cluster :: "emmi \<Rightarrow> nat \<Rightarrow> real \<Rightarrow> real list \<times> real \<times> real" where
  "mc_cluster st nGMM shift =
     fold (mc_neighbor st nGMM shift) [0..<length (MCneigh st ! nGMM)] ([], 0, 0)"

definition mc_nGMM :: "emmi \<Rightarrow> real \<Rightarrow> nat" where
  "mc_nGMM st u =
     (let n = length (GMM_d_m st);
          nGMM = nat \<lfloor>u * real n\<rfloor>
      in if nGMM = n then n - 1 else nGMM)"

definition mc_shift :: "emmi \<Rightarrow> real \<Rightarrow> real" where
  "mc_shift st u = dsigma st * (2 * u - 1)"

definition mc_do_sample :: "emmi \<Rightarrow> bool" where
  "mc_do_sample st \<longleftrightarrow>
     (\<not> no_aver st \<and> rank st = 0) \<or> (no_aver st \<and> rank st = 0 \<and> replica st = 0)"

definition mc_commit :: "emmi \<Rightarrow> nat \<Rightarrow> real list \<Rightarrow> real list" where
  \<comment> \<open>\<^verbatim>\<open>sigma_[MCneigh_[nGMM][j]] = new_sigma[j]\<close> for each \<^verbatim>\<open>j\<close>\<close>
  "mc_commit st nGMM new_sigma =
     fold (\<lambda>j s. s[MCneigh st ! nGMM ! j := new_sigma ! j])
          [0..<length (MCneigh st ! nGMM)] (sigma st)"

definition doMonteCarlo :: "emmi \<Rightarrow> mc_draws \<Rightarrow> mc_peers \<Rightarrow> emmi" where
  "doMonteCarlo st d peers =
     (let nGMM = mc_nGMM st (u_gmm d);
          shift = mc_shift st (u_shift d);
          st1 = (if mc_do_sample st then
                   (case mc_cluster st nGMM shift of (new_sigma, old_ene, new_ene) \<Rightarrow>
                      if doAccept st (u_accept d) old_ene new_ene
                      then st\<lparr>sigma := mc_commit st nGMM new_sigma,
                              MCaccept := MCaccept st + 1\<rparr>
                      else st)
                 else st\<lparr>sigma := map (\<lambda>_. 0) (sigma st), MCaccept := 0\<rparr>)
      in if no_aver st \<and> rank st = 0
         then st1\<lparr>sigma := vsum (sigma st1) (replicas_sigma peers),
                  MCaccept := MCaccept st1 + replicas_MCaccept peers\<rparr>
         else st1)"

section \<open>EMMI.cpp: the constructor's sampling parameters\<close>

definition max_element :: "real list \<Rightarrow> real" where
  "max_element xs = fold max (tl xs) (hd xs)"

definition set_sampling_parameter :: "real list option \<Rightarrow> real \<Rightarrow> real \<Rightarrow> real \<Rightarrow> real \<Rightarrow> real
    \<Rightarrow> nat \<Rightarrow> emmi \<Rightarrow> emmi" where
  \<comment> \<open>the body of the loop under \<^verbatim>\<open>// set sampling parameters\<close>; \<open>exp_err\<close> is \<open>None\<close>
      when no error file is named\<close>
  "set_sampling_parameter exp_err sigma_mean_h sigma_mean_c sigma_ini ov_base ov_max i st =
     (let s0_exp = (case exp_err of None \<Rightarrow> 0 | Some e \<Rightarrow> e ! i);
          st1 = (if GMM_d_beta st ! i = 1
                 then st\<lparr>sigma_mean := sigma_mean st @ [sigma_mean_h * ovdd st ! i]\<rparr> else st);
          st2 = (if GMM_d_beta st1 ! i = 0
                 then st1\<lparr>sigma_mean := sigma_mean st1 @ [sigma_mean_c * ovdd st1 ! i]\<rparr> else st1)
      in if do_sampling st2 then
           (let st3 = st2\<lparr>sigma_min := sigma_min st2 @ [s0_exp]\<rparr>;
                st4 = st3\<lparr>sigma_max := sigma_max st3 @ [2 * ov_max + s0_exp + dsigma st3]\<rparr>
            in st4\<lparr>sigma := sigma st4 @
                 [max (sigma_min st4 ! i) (min (sigma_max st4 ! i) (sigma_ini * ov_base))]\<rparr>)
         else st2\<lparr>sigma0 := sigma0 st2 @
                 [sqrt (s0_exp * s0_exp + sigma_mean st2 ! i * sigma_mean st2 ! i)]\<rparr>)"

definition set_sampling_parameters :: "real list option \<Rightarrow> real \<Rightarrow> real \<Rightarrow> real \<Rightarrow> emmi \<Rightarrow> emmi" where
  \<comment> \<open>from \<^verbatim>\<open>// calculate mediam overlap\<close> to the end of that loop; \<^verbatim>\<open>ovdd_\<close> holds the
      self overlaps, the vectors that are filled are empty on entry\<close>
  "set_sampling_parameters exp_err sigma_mean_h sigma_mean_c sigma_ini st =
     (let ovdd_median = sort (ovdd st);
          ov_base = ovdd_median ! (length ovdd_median div 2);
          ov_max = max_element (ovdd st);
          st0 = st\<lparr>dsigma := dsigma st * ov_base\<rparr>
      in fold (set_sampling_parameter exp_err sigma_mean_h sigma_mean_c sigma_ini ov_base ov_max)
              [0..<length (GMM_d_m st0)] st0)"

section \<open>EMMI.cpp: regression and the two scores\<close>

definition doRegression_inv_s2 :: "real list \<Rightarrow> emmi \<Rightarrow> emmi" where
  \<comment> \<open>\<^verbatim>\<open>doRegression(const vector<double> &inv_s2)\<close>, the weighted regression\<close>
  "doRegression_inv_s2 inv_s2 st =
     (let Bn = fold (\<lambda>i b. b + ovmd st ! i * ovdd st ! i * inv_s2 ! i) [0..<length (ovmd st)] 0;
          Bd = fold (\<lambda>i b. b + ovmd st ! i * ovmd st ! i * inv_s2 ! i) [0..<length (ovmd st)] 0
      in if Bd \<le> 0 \<or> Bn \<le> 0 then st\<lparr>scale := 1\<rparr> else st\<lparr>scale := Bn / Bd\<rparr>)"

definition doRegression :: "emmi \<Rightarrow> emmi" where
  \<comment> \<open>\<^verbatim>\<open>doRegression()\<close>, the non-weighted regression\<close>
  "doRegression st =
     (let Bn = fold (\<lambda>i b. b + ovmd st ! i * ovdd st ! i) [0..<length (ovmd st)] 0;
          Bd = fold (\<lambda>i b. b + ovmd st ! i * ovmd st ! i) [0..<length (ovmd st)] 0
      in if Bd \<le> 0 \<or> Bn \<le> 0 then st\<lparr>scale := 1\<rparr> else st\<lparr>scale := Bn / Bd\<rparr>)"

text \<open>
  What the other processes pass to the sums of \<^verbatim>\<open>calculate_sigma\<close> and
  \<^verbatim>\<open>calculate_marginal\<close>: the other replicas over \<^verbatim>\<open>multi_sim_comm\<close>, the other ranks
  of this replica over \<^verbatim>\<open>comm\<close>.
\<close>

record score_peers =
  replicas_ovmd :: "real list"
  replicas_inv_s2 :: "real list"
  ranks_ovmd :: "real list"
  ranks_inv_s2 :: "real list"

definition sigma_reduce :: "emmi \<Rightarrow> score_peers \<Rightarrow> emmi \<times> real list" where
  \<comment> \<open>\<^verbatim>\<open>calculate_sigma\<close> up to the local communication: the state with the reduced
      \<^verbatim>\<open>ovmd_\<close>, and \<^verbatim>\<open>inv_s2\<close>\<close>
  "sigma_reduce st peers =
     (let escale = 1 / real (nrep st);
          n = length (ovmd st);
          r = (if rank st = 0 then
                 (let inv_s2 = map (\<lambda>i. 1 / (sigma_mean st ! i * sigma_mean st ! i
                                               + sigma st ! i * sigma st ! i)) [0..<n]
                  in if \<not> no_aver st \<and> nrep st > 1
                     then (map (\<lambda>x. x * escale) (vsum (ovmd st) (replicas_ovmd peers)),
                           vsum inv_s2 (replicas_inv_s2 peers))
                     else (ovmd st, inv_s2))
               else (map (\<lambda>_. 0) (ovmd st), replicate n 0))
      in if size_comm st > 1
         then (st\<lparr>ovmd := vsum (fst r) (ranks_ovmd peers)\<rparr>, vsum (snd r) (ranks_inv_s2 peers))
         else (st\<lparr>ovmd := fst r\<rparr>, snd r))"

definition sigma_ene :: "emmi \<Rightarrow> real list \<Rightarrow> real" where
  \<comment> \<open>the loop under \<^verbatim>\<open>// calculate score and reweighting score\<close> and the constant factors\<close>
  "sigma_ene st inv_s2 =
     fold (\<lambda>i ene. ene + (scale st * ovmd st ! i - ovdd st ! i)
                          * (scale st * ovmd st ! i - ovdd st ! i) * inv_s2 ! i)
          [0..<length (ovmd st)] 0 * (0.5 * kbt st)"

definition sigma_regression :: "emmi \<Rightarrow> host \<Rightarrow> real list \<Rightarrow> emmi" where
  \<comment> \<open>the block under \<^verbatim>\<open>// do regression\<close> of \<^verbatim>\<open>calculate_sigma\<close>\<close>
  "sigma_regression st h inv_s2 =
     (if nregres st > 0 \<and> getStep h mod int (nregres st) = 0 \<and> \<not> getExchangeStep h
      then (if no_weights st then doRegression st else doRegression_inv_s2 inv_s2 st)
      else st)"

definition calculate_sigma :: "emmi \<Rightarrow> host \<Rightarrow> score_peers \<Rightarrow> mc_draws \<Rightarrow> mc_peers \<Rightarrow> emmi \<times> real" where
  \<comment> \<open>the state on return and the value set for \<^verbatim>\<open>scoreb\<close>; the derivatives, the
      virial and the status file are left out\<close>
  "calculate_sigma st h peers d mcp =
     (case sigma_reduce st peers of (st1, inv_s2) \<Rightarrow>
        let st2 = sigma_regression st1 h inv_s2;
            ene = sigma_ene st2 inv_s2;
            st3 = (if dsigma st2 > 0 \<and> getStep h mod MCstride st2 = 0 \<and> \<not> getExchangeStep h
                   then doMonteCarlo st2 d mcp else st2)
        in (st3, ene))"

definition inv_sqrt2 :: real where
  \<comment> \<open>the member \<^verbatim>\<open>inv_sqrt2_\<close>, set once by the constructor\<close>
  "inv_sqrt2 = 0.707106781186548"

definition marginal_reduce :: "emmi \<Rightarrow> score_peers \<Rightarrow> emmi" where
  \<comment> \<open>\<^verbatim>\<open>// calculate average of ovmd_ across replicas\<close>\<close>
  "marginal_reduce st peers =
     (let escale = 1 / real (nrep st)
      in if \<not> no_aver st \<and> nrep st > 1
         then (let own = (if rank st = 0
                          then map (\<lambda>x. x * escale) (vsum (ovmd st) (replicas_ovmd peers))
                          else map (\<lambda>_. 0) (ovmd st))
               in st\<lparr>ovmd := vsum own (ranks_ovmd peers)\<rparr>)
         else st)"

definition marginal_component :: "(real \<Rightarrow> real) \<Rightarrow> nat \<Rightarrow> emmi \<times> real \<Rightarrow> emmi \<times> real" where
  \<comment> \<open>the body of the loop under \<^verbatim>\<open>// calculate score\<close>, on the state and \<^verbatim>\<open>ene\<close>;
      the first argument is \<^verbatim>\<open>erf\<close> of \<^verbatim>\<open><cmath>\<close>\<close>
  "marginal_component erf i acc =
     (case acc of (st, ene) \<Rightarrow>
        let dev = (scale st * ovmd st ! i - ovdd st ! i) / sigma0 st ! i;
            st1 = st\<lparr>err_f := (err_f st)[i := erf (dev * inv_sqrt2)]\<rparr>;
            st2 = st1\<lparr>exp_f := (exp_f st1)[i := exp (- 0.5 * dev * dev)]\<rparr>
        in (st2, ene + - ln (0.5 / dev * err_f st2 ! i)))"

definition marginal_regression :: "emmi \<Rightarrow> host \<Rightarrow> emmi" where
  \<comment> \<open>the line under \<^verbatim>\<open>// do regression\<close> of \<^verbatim>\<open>calculate_marginal\<close>\<close>
  "marginal_regression st h =
     (if nregres st > 0 \<and> getStep h mod int (nregres st) = 0 \<and> \<not> getExchangeStep h
      then doRegression st else st)"

definition calculate_marginal :: "(real \<Rightarrow> real) \<Rightarrow> emmi \<Rightarrow> host \<Rightarrow> score_peers \<Rightarrow> emmi \<times> real" where
  \<comment> \<open>the state on return and the value set for \<^verbatim>\<open>scoreb\<close>; the derivatives and the
      virial are left out\<close>
  "calculate_marginal erf st h peers =
     (let escale = 1 / real (nrep st);
          st2 = marginal_regression (marginal_reduce st peers) h
      in case fold (marginal_component erf) [0..<length (ovmd st2)] (st2, 0) of
           (st3, ene) \<Rightarrow> (st3, ene * (kbt st3 / escale)))"

section \<open>Auxiliary definitions\<close>

subsection \<open>Quantities the proofs name\<close>

text \<open>The invariant of the outer loop of \<^verbatim>\<open>getList\<close> before iteration \<open>i\<close>.\<close>

definition getList_inv :: "int \<Rightarrow> nat \<Rightarrow> int list \<Rightarrow> bool" where
  "getList_inv nrepl i ind \<longleftrightarrow>
     distinct (take i ind) \<and> (\<forall>x\<in>set (take i ind). 0 \<le> x \<and> x < nrepl)"

text \<open>The neighbourhood \<^verbatim>\<open>prepareCollectiveMC\<close> computes for component \<open>i\<close>, and the value
  the Monte Carlo move proposes for component \<open>i\<close>.\<close>

definition mc_within :: "emmi \<Rightarrow> nat \<Rightarrow> nat list" where
  "mc_within st i =
     filter (\<lambda>j. modulo (vminus (GMM_d_m st ! i) (GMM_d_m st ! j)) \<le> MCcut st)
       [0..<length (GMM_d_m st)]"

definition mc_new_s :: "emmi \<Rightarrow> real \<Rightarrow> nat \<Rightarrow> real" where
  "mc_new_s st shift i =
     check_boundaries (sigma_min st ! i) (sigma_max st ! i) (sigma st ! i + shift)"

definition sigma_in_bounds :: "emmi \<Rightarrow> bool" where
  "sigma_in_bounds st \<longleftrightarrow>
     list_all (\<lambda>i. sigma_min st ! i \<le> sigma st ! i \<and> sigma st ! i \<le> sigma_max st ! i)
       [0..<length (sigma st)]"

text \<open>\<^verbatim>\<open>sigma_\<close> in \<^verbatim>\<open>doMonteCarlo\<close> before the communication between replicas.\<close>

definition mc_local_sigma :: "emmi \<Rightarrow> mc_draws \<Rightarrow> real list" where
  "mc_local_sigma st d =
     (if mc_do_sample st then
        (if doAccept st (u_accept d)
              (fst (snd (mc_cluster st (mc_nGMM st (u_gmm d)) (mc_shift st (u_shift d)))))
              (snd (snd (mc_cluster st (mc_nGMM st (u_gmm d)) (mc_shift st (u_shift d)))))
         then mc_commit st (mc_nGMM st (u_gmm d))
                (map (mc_new_s st (mc_shift st (u_shift d))) (MCneigh st ! mc_nGMM st (u_gmm d)))
         else sigma st)
      else map (\<lambda>_. 0) (sigma st))"

text \<open>The values \<^verbatim>\<open>s0_exp\<close> and \<^verbatim>\<open>sigma_mean_[i]\<close> of the constructor's loop.\<close>

definition s0_exp_of :: "real list option \<Rightarrow> nat \<Rightarrow> real" where
  "s0_exp_of exp_err i = (case exp_err of None \<Rightarrow> 0 | Some e \<Rightarrow> e ! i)"

definition sigma_mean_of :: "real \<Rightarrow> real \<Rightarrow> emmi \<Rightarrow> nat \<Rightarrow> real" where
  "sigma_mean_of sigma_mean_h sigma_mean_c st i =
     (if GMM_d_beta st ! i = 1 then sigma_mean_h else sigma_mean_c) * ovdd st ! i"

definition regression_Bn :: "real list \<Rightarrow> emmi \<Rightarrow> real" where
  "regression_Bn w st = (\<Sum>i<length (ovmd st). ovmd st ! i * ovdd st ! i * w ! i)"

definition regression_Bd :: "real list \<Rightarrow> emmi \<Rightarrow> real" where
  "regression_Bd w st = (\<Sum>i<length (ovmd st). ovmd st ! i * ovmd st ! i * w ! i)"

definition inv_s2_local :: "emmi \<Rightarrow> real list" where
  "inv_s2_local st =
     map (\<lambda>i. 1 / (sigma_mean st ! i * sigma_mean st ! i + sigma st ! i * sigma st ! i))
       [0..<length (ovmd st)]"

definition averaging :: "emmi \<Rightarrow> bool" where
  "averaging st \<longleftrightarrow> \<not> no_aver st \<and> nrep st > 1"

definition ranks_pass_zeros :: "emmi \<Rightarrow> score_peers \<Rightarrow> bool" where
  "ranks_pass_zeros st peers \<longleftrightarrow>
     (size_comm st > 1 \<longrightarrow>
        ranks_inv_s2 peers = replicate (length (ovmd st)) 0
      \<and> ranks_ovmd peers = replicate (length (ovmd st)) 0)"

definition mc_pre :: "emmi \<Rightarrow> nat \<Rightarrow> real" where
  "mc_pre st i = 0.5 * kbt st * (scale st * ovmd st ! i - ovdd st ! i)
                   * (scale st * ovmd st ! i - ovdd st ! i)"

definition mc_old_s2 :: "emmi \<Rightarrow> nat \<Rightarrow> real" where
  "mc_old_s2 st i = sigma_mean st ! i * sigma_mean st ! i + sigma st ! i * sigma st ! i"

definition mc_new_s2 :: "emmi \<Rightarrow> real \<Rightarrow> nat \<Rightarrow> real" where
  "mc_new_s2 st shift i
     = sigma_mean st ! i * sigma_mean st ! i + mc_new_s st shift i * mc_new_s st shift i"

definition mc_old_term :: "emmi \<Rightarrow> nat \<Rightarrow> real" where
  "mc_old_term st i = mc_pre st i / mc_old_s2 st i + kbt st * prior st * ln (mc_old_s2 st i)"

definition mc_new_term :: "emmi \<Rightarrow> real \<Rightarrow> nat \<Rightarrow> real" where
  "mc_new_term st shift i
     = mc_pre st i / mc_new_s2 st shift i + kbt st * prior st * ln (mc_new_s2 st shift i)"

text \<open>\<^verbatim>\<open>dev\<close> of \<^verbatim>\<open>calculate_marginal\<close>, and the fields its loop leaves alone.\<close>

definition marginal_dev :: "emmi \<Rightarrow> nat \<Rightarrow> real" where
  "marginal_dev st i = (scale st * ovmd st ! i - ovdd st ! i) / sigma0 st ! i"

definition marginal_same :: "emmi \<Rightarrow> emmi \<Rightarrow> bool" where
  "marginal_same s t \<longleftrightarrow>
     scale s = scale t \<and> ovmd s = ovmd t \<and> ovdd s = ovdd t \<and> sigma0 s = sigma0 t
     \<and> kbt s = kbt t \<and> nrep s = nrep t \<and> length (err_f s) = length (err_f t)"




text \<open>
  The overlap that \<^verbatim>\<open>update_neighbor_list\<close> reads from the table for atom \<open>im\<close> and
  component \<open>id_d\<close>, if the atom is not skipped.
\<close>

definition nl_ov :: "emmi \<Rightarrow> host \<Rightarrow> nat \<Rightarrow> nat \<Rightarrow> real option" where
  "nl_ov st h id_d im =
     (let kaux = GMM_m_type st ! im * length (GMM_d_m st) + id_d;
          expov = get_exp_overlap st h (GMM_d_m st ! id_d) (getPosition h ! im)
                    (inv_cov_md st ! kaux);
          itab = c_round (0.5 * expov / dexp st)
      in if itab < 0 \<or> int (length (tab_exp st)) \<le> itab then None
         else Some (pre_fact st ! kaux * tab_exp st ! nat itab))"

text \<open>The keys that the integration loop erases, and those it leaves.\<close>

fun nl_removed :: "real list \<Rightarrow> real \<Rightarrow> real \<Rightarrow> real list" where
  "nl_removed [] res ov_cut = []"
| "nl_removed (x # xs) res ov_cut =
     (if res + x \<ge> ov_cut then [] else x # nl_removed xs (res + x) ov_cut)"

fun nl_kept :: "real list \<Rightarrow> real \<Rightarrow> real \<Rightarrow> real list" where
  "nl_kept [] res ov_cut = []"
| "nl_kept (x # xs) res ov_cut =
     (if res + x \<ge> ov_cut then x # xs else nl_kept xs (res + x) ov_cut)"

subsection \<open>Worked examples\<close>

text \<open>A state with nothing loaded, from which the examples are built.\<close>

definition example_state :: emmi where
  "example_state = \<lparr>kbt = 1, GMM_m_type = [], GMM_d_m = [], GMM_d_w = [], GMM_d_cov = [],
     GMM_d_beta = [], ovmd = [], ovdd = [], err_f = [], exp_f = [], cfact = 1, nrep = 1,
     replica = 0, sigma = [], sigma_mean = [], sigma_min = [], sigma_max = [], sigma0 = [],
     dsigma = 0, pre_fact = [], inv_cov_md = [], nl_cutoff = 1, no_aver = False, nl = [],
     size_comm = 1, rank = 0, pbc = False, MCstride = 1, MCaccept = 0, MCcut = 0, MCneigh = [],
     do_sampling = False, prior = 1, nregres = 0, scale = 1, no_weights = False, dexp = 1,
     tab_exp = []\<rparr>"

definition mc_initial :: emmi where
  "mc_initial = example_state\<lparr>GMM_d_m := [(0, 0, 0), (1, 0, 0)], MCcut := 1 / 2,
     ovmd := [0, 0], ovdd := [0, 0], sigma := [4, 2], sigma_mean := [1, 1],
     sigma_min := [1, 1], sigma_max := [5, 5], dsigma := 2, do_sampling := True, prior := 0\<rparr>"

definition mc_example :: emmi where
  "mc_example = mc_initial\<lparr>MCneigh := [[0], [1]]\<rparr>"

definition init_example :: emmi where
  "init_example = example_state\<lparr>GMM_d_m := [(0, 0, 0)], GMM_d_beta := [1], ovdd := [1],
     dsigma := 1, do_sampling := True\<rparr>"

definition worker_example :: emmi where
  "worker_example = mc_example\<lparr>rank := 1, size_comm := 2\<rparr>"

definition draws_example :: mc_draws where
  "draws_example = \<lparr>u_gmm = 0, u_shift = 1 / 2, u_accept = 0\<rparr>"

definition no_replicas :: mc_peers where
  "no_replicas = \<lparr>replicas_sigma = [0, 0], replicas_MCaccept = 0\<rparr>"

definition zero_weight_line :: gmm_line where
  "zero_weight_line = \<lparr>Id = 0, Weight = 0, Mean = (0, 0, 0), Cov = (1, 0, 0, 1, 0, 1), Beta = 1\<rparr>"

definition host_example :: host where
  "host_example = \<lparr>getPosition = [], pbcDistance = delta, getStep = 0, getExchangeStep = False\<rparr>"

definition score_example :: emmi where
  "score_example = example_state\<lparr>ovmd := [1], ovdd := [2], sigma := [1], sigma_mean := [0],
     do_sampling := True\<rparr>"

definition one_replica_more :: score_peers where
  "one_replica_more = \<lparr>replicas_ovmd = [1], replicas_inv_s2 = [1], ranks_ovmd = [],
     ranks_inv_s2 = []\<rparr>"

definition averaging_example :: emmi where
  "averaging_example = score_example\<lparr>nrep := 2\<rparr>"

definition regression_example :: emmi where
  "regression_example = example_state\<lparr>ovmd := [1, 1], ovdd := [1, 2], sigma := [1, 1],
     sigma_mean := [0, 0], do_sampling := True, nrep := 2, nregres := 1\<rparr>"

definition uneven_replica :: score_peers where
  "uneven_replica = \<lparr>replicas_ovmd = [1, 1], replicas_inv_s2 = [1, 4], ranks_ovmd = [],
     ranks_inv_s2 = []\<rparr>"

definition triple_example :: emmi where
  "triple_example = example_state\<lparr>ovmd := [1, 2], ovdd := [3, 6], sigma := [1, 1],
     sigma_mean := [0, 0], do_sampling := True, nregres := 1\<rparr>"

text \<open>The error function by its Maclaurin series, for the worked example.\<close>

definition erf_series :: "real \<Rightarrow> real" where
  "erf_series x = 2 / sqrt pi * (\<Sum>n. (- 1) ^ n * x ^ (2 * n + 1) / (fact n * real (2 * n + 1)))"

definition marginal_example :: emmi where
  "marginal_example = example_state\<lparr>ovmd := [2], ovdd := [1], sigma0 := [1], err_f := [0],
     exp_f := [0]\<rparr>"

definition marginal_initial :: emmi where
  "marginal_initial = example_state\<lparr>GMM_d_m := [(0, 0, 0)], GMM_d_beta := [1], ovdd := [4]\<rparr>"



definition nl_example :: emmi where
  "nl_example = example_state\<lparr>GMM_d_m := [(0, 0, 0)], GMM_m_type := [0, 1, 2, 3],
     pre_fact := [1, 2, 3, 4],
     inv_cov_md := [(1, 0, 0, 1, 0, 1), (1, 0, 0, 1, 0, 1), (1, 0, 0, 1, 0, 1), (1, 0, 0, 1, 0, 1)],
     nl_cutoff := 3 / 4, dexp := 1, tab_exp := [1]\<rparr>"

definition nl_host :: host where
  "nl_host = \<lparr>getPosition = [(0, 0, 0), (0, 0, 0), (0, 0, 0), (0, 0, 0)], pbcDistance = delta,
     getStep = 0, getExchangeStep = False\<rparr>"

definition nl_equal_example :: emmi where
  "nl_equal_example = nl_example\<lparr>GMM_m_type := [0, 0], nl_cutoff := 1 / 10, pre_fact := [5]\<rparr>"

section \<open>Properties of ExchangePatterns::getList\<close>

lemma getList_stat_iff: "getList_stat ind i \<noteq> 0 \<longleftrightarrow> (\<exists>j<i. ind ! i = ind ! j)"
proof -
  have "fold (\<lambda>j stat. if ind ! i = ind ! j then 1 else stat) js s \<noteq> (0::nat)
          \<longleftrightarrow> s \<noteq> 0 \<or> (\<exists>j\<in>set js. ind ! i = ind ! j)" for js s
    by (induction js arbitrary: s) auto
  from this [of "[0..<i]" 0] show ?thesis
    by (auto simp: getList_stat_def)
qed

lemma c_trunc_range:
  assumes "0 \<le> u" "u < 1" "0 < n"
  shows "0 \<le> c_trunc (u * real_of_int n) \<and> c_trunc (u * real_of_int n) < n"
proof -
  have nn: "0 \<le> u * real_of_int n" using assms by simp
  have "u * real_of_int n < real_of_int n" using assms by simp
  then have "\<lfloor>u * real_of_int n\<rfloor> < n" by (simp add: floor_less_iff)
  moreover have "0 \<le> \<lfloor>u * real_of_int n\<rfloor>" using nn by simp
  ultimately show ?thesis using nn by (simp add: c_trunc_def)
qed

lemma getList_while_inv:
  assumes "getList_while us nrepl i ind = Inr (us', ind')"
    and "\<forall>u\<in>set us. 0 \<le> u \<and> u < 1"
    and "getList_inv nrepl i ind" and "i < length ind" and "0 < nrepl"
  shows "getList_inv nrepl (Suc i) ind' \<and> length ind' = length ind
         \<and> (\<forall>u\<in>set us'. 0 \<le> u \<and> u < 1)"
  using assms
proof (induction us arbitrary: ind)
  case Nil
  then show ?case by simp
next
  case (Cons u us)
  let ?v = "c_trunc (u * real_of_int nrepl)"
  let ?ind = "ind[i := ?v]"
  have tk: "take i ?ind = take i ind" by simp
  have inv': "getList_inv nrepl i ?ind"
    using Cons.prems(3) by (simp add: getList_inv_def)
  show ?case
  proof (cases "getList_stat ?ind i \<noteq> 0")
    case True
    with Cons.prems(1) have "getList_while us nrepl i ?ind = Inr (us', ind')"
      by (simp add: Let_def)
    from Cons.IH [OF this _ inv'] Cons.prems show ?thesis by simp
  next
    case False
    with Cons.prems(1) have eq: "us' = us" "ind' = ?ind"
      by (simp_all add: Let_def)
    from False have nocoll: "\<forall>j<i. ?ind ! i \<noteq> ?ind ! j"
      by (simp only: getList_stat_iff) blast
    have vi: "?ind ! i = ?v" using Cons.prems(4) by simp
    have rng: "0 \<le> ?v \<and> ?v < nrepl"
      using c_trunc_range [of u nrepl] Cons.prems(2,5) by simp
    have ts: "take (Suc i) ?ind = take i ind @ [?v]"
      using Cons.prems(4) tk vi by (simp add: take_Suc_conv_app_nth)
    have notin: "?v \<notin> set (take i ind)"
    proof
      assume "?v \<in> set (take i ind)"
      then obtain j where j: "j < length (take i ind)" "take i ind ! j = ?v"
        by (auto simp: in_set_conv_nth)
      then have "j < i" by simp
      moreover from j \<open>j < i\<close> have "?ind ! j = ?v" by simp
      ultimately show False using nocoll vi by metis
    qed
    show ?thesis
      using Cons.prems(2,3) rng notin
      by (simp add: eq ts getList_inv_def)
  qed
qed

lemma getList_for_inv:
  assumes "getList_for us nrepl i k ind = Inr (us', ind')"
    and "\<forall>u\<in>set us. 0 \<le> u \<and> u < 1"
    and "getList_inv nrepl i ind" and "i + k \<le> length ind" and "0 < nrepl \<or> k = 0"
  shows "getList_inv nrepl (i + k) ind'"
  using assms
proof (induction k arbitrary: us i ind)
  case 0
  then show ?case by simp
next
  case (Suc k)
  from Suc.prems(1) obtain us1 ind1 where
    w: "getList_while us nrepl i ind = Inr (us1, ind1)"
    and f: "getList_for us1 nrepl (Suc i) k ind1 = Inr (us', ind')"
    by (auto split: sum.splits)
  from Suc.prems have "i < length ind" "0 < nrepl" by simp_all
  from getList_while_inv [OF w Suc.prems(2,3) this]
  have "getList_inv nrepl (Suc i) ind1" "length ind1 = length ind"
    "\<forall>u\<in>set us1. 0 \<le> u \<and> u < 1" by simp_all
  from Suc.IH [OF f this(3,1)] this(2) Suc.prems(4) \<open>0 < nrepl\<close>
  show ?case by simp
qed

text \<open>
  C10. Whenever \<^verbatim>\<open>getList(ind, nrepl)\<close> returns, and the generator's draws lie in
  \<open>[0, 1)\<close>, the entries \<open>ind[0], \<dots>, ind[nrepl-1]\<close> are pairwise distinct and are
  exactly the integers \<open>0, \<dots>, nrepl-1\<close>: a permutation.
\<close>

theorem getList_permutation:
  assumes "getList us ind nrepl = Inr (us', ind')"
    and "\<forall>u\<in>set us. 0 \<le> u \<and> u < 1"
  shows "distinct (take (nat nrepl) ind') \<and> set (take (nat nrepl) ind') = {0..<nrepl}"
proof -
  from assms(1) have len: "nat nrepl \<le> length ind"
    and f: "getList_for us nrepl 0 (nat nrepl) ind = Inr (us', ind')"
    by (simp_all add: getList_def split: if_splits)
  have "getList_inv nrepl 0 ind" by (simp add: getList_inv_def)
  moreover have "0 + nat nrepl \<le> length ind" using len by simp
  moreover have "0 < nrepl \<or> nat nrepl = 0" by auto
  ultimately have inv: "getList_inv nrepl (nat nrepl) ind'"
    using getList_for_inv [OF f assms(2)] by fastforce
  have len': "nat nrepl \<le> length ind'"
  proof -
    have "getList_while vs nrepl i xs = Inr (vs', xs') \<Longrightarrow> length xs' = length xs"
      for vs i xs vs' xs'
      by (induction vs arbitrary: xs) (auto simp: Let_def split: if_splits)
    then have "getList_for vs nrepl i k xs = Inr (vs', xs') \<Longrightarrow> length xs' = length xs"
      for vs i k xs vs' xs'
      by (induction k arbitrary: vs i xs) (fastforce split: sum.splits)+
    from this [OF f] len show ?thesis by simp
  qed
  let ?t = "take (nat nrepl) ind'"
  from inv have d: "distinct ?t" and sub: "set ?t \<subseteq> {0..<nrepl}"
    by (auto simp: getList_inv_def)
  have "card (set ?t) = length ?t" using d by (rule distinct_card)
  also have "\<dots> = nat nrepl" using len' by simp
  also have "\<dots> = card {0..<nrepl}" by simp
  finally have "card (set ?t) = card {0..<nrepl}" .
  with sub have "set ?t = {0..<nrepl}"
    by (intro card_subset_eq) simp_all
  with d show ?thesis by simp
qed

theorem getList_permutation_witness:
  "getList [1/2, 1/2, 1/10] [7, 7] 2 = Inr ([], [1, 0])
   \<and> distinct (take (nat 2) [1, 0 :: int]) \<and> set (take (nat 2) [1, 0 :: int]) = {0..<2}"
proof -
  have r: "getList [1/2, 1/2, 1/10] [7, 7] 2 = Inr ([], [1, 0])"
    by (simp add: getList_def getList_stat_def c_trunc_def numeral_2_eq_2)
  have h: "\<forall>u\<in>set [1/2, 1/2, 1/10 :: real]. 0 \<le> u \<and> u < 1" by simp
  from getList_permutation [OF r h] r show ?thesis by simp
qed

section \<open>Properties of the GMM reader\<close>

text \<open>
  C7 at a line of weight \<open>0\<close> with the identity as covariance: \<^verbatim>\<open>check_GMM_d\<close> tests
  \<^verbatim>\<open>w<0.0\<close>, so the line passes and the component is stored.
\<close>

theorem zero_weight_is_loaded:
  "check_GMM_d (Cov zero_weight_line) (Weight zero_weight_line) = Inr ()
   \<and> get_GMM_d [zero_weight_line] example_state
       = Inr (example_state\<lparr>GMM_d_m := [(0, 0, 0)], GMM_d_w := [0],
                GMM_d_cov := [(1, 0, 0, 1, 0, 1)], GMM_d_beta := [1]\<rparr>)"
  by (simp add: check_GMM_d_def zero_weight_line_def example_state_def)

lemma negative_weight_is_rejected:
  "w < 0 \<Longrightarrow> check_GMM_d cov w \<noteq> Inr ()"
  by (cases cov) (simp add: check_GMM_d_def Let_def)

lemma get_GMM_d_beta:
  "get_GMM_d ls st = Inr st' \<Longrightarrow> \<forall>b\<in>set (GMM_d_beta st). b = 0 \<or> b = 1 \<Longrightarrow>
   \<forall>b\<in>set (GMM_d_beta st'). b = 0 \<or> b = 1"
proof (induction ls arbitrary: st)
  case Nil
  then show ?case by simp
next
  case (Cons l ls)
  let ?st = "st\<lparr>GMM_d_m := GMM_d_m st @ [Mean l],
                     GMM_d_cov := GMM_d_cov st @ [Cov l],
                     GMM_d_w := GMM_d_w st @ [Weight l],
                     GMM_d_beta := GMM_d_beta st @ [Beta l]\<rparr>"
  from Cons.prems(1) have b: "Beta l = 0 \<or> Beta l = 1"
    and r: "get_GMM_d ls ?st = Inr st'"
    by (simp_all split: sum.splits if_splits)
  have "\<forall>b\<in>set (GMM_d_beta ?st). b = 0 \<or> b = 1" using b Cons.prems(2) by simp
  from Cons.IH [OF r this] show ?case .
qed

section \<open>Properties of the Monte Carlo move\<close>

lemma fold_push_filter:
  "fold (\<lambda>j neigh. if P j then neigh @ [j] else neigh) js acc = acc @ filter P js"
  by (induction js arbitrary: acc) auto

lemma prepareCollectiveMC_fold:
  assumes "GMM_d_m s = GMM_d_m st" "MCcut s = MCcut st"
  shows "fold (\<lambda>i s.
             let m_i = GMM_d_m s ! i;
                 neigh = fold (\<lambda>j neigh.
                                 let m_j = GMM_d_m s ! j;
                                     dist = modulo (vminus m_i m_j)
                                 in if dist \<le> MCcut s then neigh @ [j] else neigh)
                          [0..<length (GMM_d_m s)] []
             in s\<lparr>MCneigh := MCneigh s @ [neigh]\<rparr>) is s
         = s\<lparr>MCneigh := MCneigh s @ map (mc_within st) is\<rparr>"
  using assms
proof (induction "is" arbitrary: s)
  case Nil
  then show ?case by simp
next
  case (Cons i "is")
  let ?s = "s\<lparr>MCneigh := MCneigh s @ [mc_within st i]\<rparr>"
  have "GMM_d_m ?s = GMM_d_m st" "MCcut ?s = MCcut st" using Cons.prems by simp_all
  from Cons.IH [OF this] show ?case
    by (simp add: Cons.prems Let_def fold_push_filter mc_within_def)
qed

lemma prepareCollectiveMC_eq:
  "prepareCollectiveMC st
     = st\<lparr>MCneigh := MCneigh st @ map (mc_within st) [0..<length (GMM_d_m st)]\<rparr>"
  unfolding prepareCollectiveMC_def by (rule prepareCollectiveMC_fold) simp_all

lemma modulo_self: "modulo (vminus m m) = 0"
  by (cases m) (simp add: modulo_def vminus_def delta_def)

lemma self_in_mc_within: "i < length (GMM_d_m st) \<Longrightarrow> 0 \<le> MCcut st \<Longrightarrow> i \<in> set (mc_within st i)"
  by (simp add: mc_within_def modulo_self)

lemma mc_cluster_fold:
  "fst (fold (mc_neighbor st nGMM shift) js acc)
     = fst acc @ map (\<lambda>j. mc_new_s st shift (MCneigh st ! nGMM ! j)) js"
  by (induction js arbitrary: acc)
     (auto simp: mc_neighbor_def mc_new_s_def Let_def split: prod.splits)

lemma mc_cluster_new_sigma:
  "fst (mc_cluster st nGMM shift) = map (mc_new_s st shift) (MCneigh st ! nGMM)"
proof -
  have "map (\<lambda>j. mc_new_s st shift (MCneigh st ! nGMM ! j)) [0..<length (MCneigh st ! nGMM)]
          = map (mc_new_s st shift) (map (\<lambda>j. MCneigh st ! nGMM ! j) [0..<length (MCneigh st ! nGMM)])"
    by simp
  also have "\<dots> = map (mc_new_s st shift) (MCneigh st ! nGMM)"
    by (simp only: map_nth)
  finally show ?thesis by (simp add: mc_cluster_def mc_cluster_fold)
qed

lemma check_boundaries_reflects:
  assumes "smin \<le> s" "s \<le> smax" "\<bar>shift\<bar> \<le> ds" "ds \<le> smax - smin"
  shows "(s + shift > smax \<longrightarrow> check_boundaries smin smax (s + shift) = 2 * smax - (s + shift))
       \<and> (s + shift < smin \<longrightarrow> check_boundaries smin smax (s + shift) = 2 * smin - (s + shift))
       \<and> (smin \<le> s + shift \<and> s + shift \<le> smax \<longrightarrow> check_boundaries smin smax (s + shift) = s + shift)
       \<and> smin \<le> check_boundaries smin smax (s + shift)
       \<and> check_boundaries smin smax (s + shift) \<le> smax"
  using assms by (auto simp: check_boundaries_def Let_def)

lemma mc_commit_fold:
  "length (fold (\<lambda>j s. s[neigh ! j := f (neigh ! j)]) js s) = length s \<and>
   (\<forall>k<length s. fold (\<lambda>j s. s[neigh ! j := f (neigh ! j)]) js s ! k
      = (if k \<in> (\<lambda>j. neigh ! j) ` set js then f k else s ! k))"
proof (induction js arbitrary: s)
  case Nil
  then show ?case by simp
next
  case (Cons j js)
  show ?case
    by (auto simp: Cons.IH nth_list_update)
qed

lemma mc_commit_nth:
  "length (mc_commit st nGMM (map f (MCneigh st ! nGMM))) = length (sigma st) \<and>
   (\<forall>k<length (sigma st). mc_commit st nGMM (map f (MCneigh st ! nGMM)) ! k
     = (if k \<in> set (MCneigh st ! nGMM) then f k else sigma st ! k))"
proof -
  let ?ng = "MCneigh st ! nGMM"
  have "mc_commit st nGMM (map f ?ng)
          = fold (\<lambda>j s. s[?ng ! j := f (?ng ! j)]) [0..<length ?ng] (sigma st)"
    unfolding mc_commit_def by (rule fold_cong) simp_all
  moreover have "(\<lambda>j. ?ng ! j) ` set [0..<length ?ng] = set ?ng"
    by (metis map_nth set_map)
  ultimately show ?thesis using mc_commit_fold [of ?ng f "[0..<length ?ng]" "sigma st"]
    by simp
qed


lemma prepareCollectiveMC_mc_initial: "prepareCollectiveMC mc_initial = mc_example"
  by (simp add: prepareCollectiveMC_eq mc_within_def mc_initial_def mc_example_def
        example_state_def modulo_def vminus_def delta_def upt_rec [of 0] upt_rec [of 1])

text \<open>
  C4. A proposal \<open>sigma + shift\<close> above \<open>sigma_max\<close> is replaced by its mirror image
  \<open>2 * sigma_max - proposal\<close>, one below \<open>sigma_min\<close> by \<open>2 * sigma_min - proposal\<close>; when
  \<open>sigma\<close> was within its bounds and \<open>|shift| \<le> dsigma \<le> sigma_max - sigma_min\<close>, the
  value stored in \<^verbatim>\<open>new_sigma\<close> lies within the bounds.
\<close>

theorem mc_reflection:
  assumes "j < length (MCneigh st ! nGMM)" and "i = MCneigh st ! nGMM ! j"
    and "sigma_min st ! i \<le> sigma st ! i" and "sigma st ! i \<le> sigma_max st ! i"
    and "\<bar>shift\<bar> \<le> dsigma st" and "dsigma st \<le> sigma_max st ! i - sigma_min st ! i"
  shows "(sigma st ! i + shift > sigma_max st ! i \<longrightarrow>
            fst (mc_cluster st nGMM shift) ! j = 2 * sigma_max st ! i - (sigma st ! i + shift))
       \<and> (sigma st ! i + shift < sigma_min st ! i \<longrightarrow>
            fst (mc_cluster st nGMM shift) ! j = 2 * sigma_min st ! i - (sigma st ! i + shift))
       \<and> sigma_min st ! i \<le> fst (mc_cluster st nGMM shift) ! j
       \<and> fst (mc_cluster st nGMM shift) ! j \<le> sigma_max st ! i"
proof -
  have "fst (mc_cluster st nGMM shift) ! j = mc_new_s st shift i"
    using assms(1,2) by (simp add: mc_cluster_new_sigma)
  then show ?thesis
    using check_boundaries_reflects [OF assms(3-6)] by (simp add: mc_new_s_def)
qed

theorem mc_reflection_witness:
  "sigma mc_example ! 0 + 2 > sigma_max mc_example ! 0
   \<and> fst (mc_cluster mc_example 0 2) ! 0 = 4
   \<and> sigma mc_example ! 1 + (- 2) < sigma_min mc_example ! 1
   \<and> fst (mc_cluster mc_example 1 (- 2)) ! 0 = 2"
proof -
  have f: "MCneigh mc_example = [[0], [1]]" "sigma mc_example = [4, 2]"
    "sigma_min mc_example = [1, 1]" "sigma_max mc_example = [5, 5]" "dsigma mc_example = 2"
    by (simp_all add: mc_example_def mc_initial_def example_state_def)
  from mc_reflection [of 0 mc_example 0 0 2] mc_reflection [of 0 mc_example 1 1 "- 2"]
  show ?thesis by (simp add: f)
qed

text \<open>
  C9. With a positive cutoff \<^verbatim>\<open>MCcut_\<close>, the neighbourhood that
  \<^verbatim>\<open>prepareCollectiveMC\<close> stores for component \<open>i\<close> contains \<open>i\<close>; hence a move proposed
  from \<open>i\<close> computes a new value for \<open>i\<close> itself and, when committed, stores it in
  \<^verbatim>\<open>sigma_[i]\<close>.
\<close>

theorem MCneigh_contains_self:
  assumes "i < length (GMM_d_m st)" and "0 < MCcut st" and "MCneigh st = []"
  shows "i \<in> set (MCneigh (prepareCollectiveMC st) ! i)
       \<and> (\<forall>st' shift. MCneigh st' = MCneigh (prepareCollectiveMC st) \<and> i < length (sigma st') \<longrightarrow>
            (\<exists>j<length (MCneigh st' ! i). MCneigh st' ! i ! j = i
               \<and> fst (mc_cluster st' i shift) ! j
                   = check_boundaries (sigma_min st' ! i) (sigma_max st' ! i) (sigma st' ! i + shift))
            \<and> mc_commit st' i (fst (mc_cluster st' i shift)) ! i
                = check_boundaries (sigma_min st' ! i) (sigma_max st' ! i) (sigma st' ! i + shift))"
proof -
  have nb: "MCneigh (prepareCollectiveMC st) ! i = mc_within st i"
    using assms(1,3) by (simp add: prepareCollectiveMC_eq)
  have self: "i \<in> set (mc_within st i)"
    using assms(1,2) by (simp add: self_in_mc_within)
  have move: "(\<exists>j<length (MCneigh st' ! i). MCneigh st' ! i ! j = i
               \<and> fst (mc_cluster st' i shift) ! j
                   = check_boundaries (sigma_min st' ! i) (sigma_max st' ! i) (sigma st' ! i + shift))
            \<and> mc_commit st' i (fst (mc_cluster st' i shift)) ! i
                = check_boundaries (sigma_min st' ! i) (sigma_max st' ! i) (sigma st' ! i + shift)"
    if st': "MCneigh st' = MCneigh (prepareCollectiveMC st)" and len: "i < length (sigma st')"
    for st' shift
  proof -
    from st' nb self have mem: "i \<in> set (MCneigh st' ! i)" by simp
    then obtain j where j: "j < length (MCneigh st' ! i)" "MCneigh st' ! i ! j = i"
      by (auto simp: in_set_conv_nth)
    then have "fst (mc_cluster st' i shift) ! j = mc_new_s st' shift i"
      by (simp add: mc_cluster_new_sigma)
    moreover have "mc_commit st' i (fst (mc_cluster st' i shift)) ! i = mc_new_s st' shift i"
      using mc_commit_nth [of st' i "mc_new_s st' shift"] mem len
      by (simp add: mc_cluster_new_sigma)
    ultimately show ?thesis using j by (auto simp: mc_new_s_def)
  qed
  from nb self move show ?thesis by simp
qed

theorem MCneigh_contains_self_witness:
  "1 \<in> set (MCneigh (prepareCollectiveMC mc_initial) ! 1)
   \<and> mc_commit mc_example 1 (fst (mc_cluster mc_example 1 1)) ! 1 = 3"
proof -
  have f: "MCneigh mc_example = [[0], [1]]" "sigma mc_example = [4, 2]"
    "sigma_min mc_example = [1, 1]" "sigma_max mc_example = [5, 5]"
    by (simp_all add: mc_example_def mc_initial_def example_state_def)
  have g: "1 < length (GMM_d_m mc_initial)" "0 < MCcut mc_initial" "MCneigh mc_initial = []"
    by (simp_all add: mc_initial_def example_state_def)
  note t = MCneigh_contains_self [OF g]
  from t have a: "1 \<in> set (MCneigh (prepareCollectiveMC mc_initial) ! 1)" by (rule conjunct1)
  from t have "MCneigh mc_example = MCneigh (prepareCollectiveMC mc_initial)
                 \<and> 1 < length (sigma mc_example) \<longrightarrow>
               mc_commit mc_example 1 (fst (mc_cluster mc_example 1 1)) ! 1
                 = check_boundaries (sigma_min mc_example ! 1) (sigma_max mc_example ! 1)
                     (sigma mc_example ! 1 + 1)"
    by blast
  then have "mc_commit mc_example 1 (fst (mc_cluster mc_example 1 1)) ! 1 = 3"
    by (simp add: prepareCollectiveMC_mc_initial f check_boundaries_def)
  with a show ?thesis by simp
qed

section \<open>The bounds of sigma\<close>

lemma sigma_in_bounds_iff:
  "sigma_in_bounds st \<longleftrightarrow>
     (\<forall>i<length (sigma st). sigma_min st ! i \<le> sigma st ! i \<and> sigma st ! i \<le> sigma_max st ! i)"
  by (auto simp: sigma_in_bounds_def list_all_iff)

lemma mc_shift_bound:
  assumes "0 \<le> u" "u < 1" "0 \<le> dsigma st"
  shows "\<bar>mc_shift st u\<bar> \<le> dsigma st"
proof -
  have "\<bar>2 * u - 1\<bar> \<le> 1" using assms by (simp add: abs_le_iff)
  then have "dsigma st * \<bar>2 * u - 1\<bar> \<le> dsigma st * 1"
    using assms(3) by (rule mult_left_mono)
  then show ?thesis using assms(3) by (simp add: mc_shift_def abs_mult)
qed

lemma vsum_zero: "length zs = length xs \<Longrightarrow> \<forall>z\<in>set zs. z = 0 \<Longrightarrow> vsum xs zs = xs"
  unfolding vsum_def
  by (induction xs zs rule: list_induct2') auto

lemma mc_new_s_in_bounds:
  assumes "sigma_min st ! i \<le> sigma st ! i" "sigma st ! i \<le> sigma_max st ! i"
    and "\<bar>shift\<bar> \<le> dsigma st" "dsigma st \<le> sigma_max st ! i - sigma_min st ! i"
  shows "sigma_min st ! i \<le> mc_new_s st shift i \<and> mc_new_s st shift i \<le> sigma_max st ! i"
  using check_boundaries_reflects [OF assms] by (simp add: mc_new_s_def)

lemma doMonteCarlo_bounds_fields:
  "sigma_min (doMonteCarlo st d peers) = sigma_min st"
  "sigma_max (doMonteCarlo st d peers) = sigma_max st"
  by (simp_all add: doMonteCarlo_def Let_def split: prod.splits)

lemma sigma_doMonteCarlo:
  "sigma (doMonteCarlo st d peers)
     = (if no_aver st \<and> rank st = 0 then vsum (mc_local_sigma st d) (replicas_sigma peers)
        else mc_local_sigma st d)"
proof -
  obtain ns oe ne where c: "mc_cluster st (mc_nGMM st (u_gmm d)) (mc_shift st (u_shift d)) = (ns, oe, ne)"
    by (cases "mc_cluster st (mc_nGMM st (u_gmm d)) (mc_shift st (u_shift d))") auto
  from c mc_cluster_new_sigma [of st "mc_nGMM st (u_gmm d)" "mc_shift st (u_shift d)"]
  have ns: "ns = map (mc_new_s st (mc_shift st (u_shift d))) (MCneigh st ! mc_nGMM st (u_gmm d))"
    by simp
  show ?thesis
    by (simp add: doMonteCarlo_def mc_local_sigma_def Let_def c ns)
qed

lemma mc_local_sigma_bounds:
  assumes "mc_do_sample st" and "sigma_in_bounds st"
    and "0 \<le> u_shift d" and "u_shift d < 1" and "0 \<le> dsigma st"
    and "\<forall>i<length (sigma st). dsigma st \<le> sigma_max st ! i - sigma_min st ! i"
  shows "length (mc_local_sigma st d) = length (sigma st) \<and>
         (\<forall>i<length (sigma st). sigma_min st ! i \<le> mc_local_sigma st d ! i
                                  \<and> mc_local_sigma st d ! i \<le> sigma_max st ! i)"
proof -
  let ?shift = "mc_shift st (u_shift d)"
  let ?g = "mc_nGMM st (u_gmm d)"
  let ?c = "mc_commit st ?g (map (mc_new_s st ?shift) (MCneigh st ! ?g))"
  have sh: "\<bar>?shift\<bar> \<le> dsigma st" using assms(3-5) by (rule mc_shift_bound)
  have old: "\<forall>i<length (sigma st). sigma_min st ! i \<le> sigma st ! i \<and> sigma st ! i \<le> sigma_max st ! i"
    using assms(2) by (simp add: sigma_in_bounds_iff)
  have new: "sigma_min st ! i \<le> mc_new_s st ?shift i \<and> mc_new_s st ?shift i \<le> sigma_max st ! i"
    if "i < length (sigma st)" for i
    using mc_new_s_in_bounds [of st i ?shift] old assms(6) sh that by simp
  have c: "length ?c = length (sigma st)"
    "\<forall>i<length (sigma st). sigma_min st ! i \<le> ?c ! i \<and> ?c ! i \<le> sigma_max st ! i"
    using mc_commit_nth [of st ?g "mc_new_s st ?shift"] old new by simp_all
  show ?thesis
    using assms(1) old c by (simp add: mc_local_sigma_def)
qed

lemma doMonteCarlo_keeps_bounds:
  assumes "mc_do_sample st" and "sigma_in_bounds st"
    and "0 \<le> u_shift d" and "u_shift d < 1" and "0 \<le> dsigma st"
    and "\<forall>i<length (sigma st). dsigma st \<le> sigma_max st ! i - sigma_min st ! i"
    and "length (replicas_sigma peers) = length (sigma st)"
    and "\<forall>z\<in>set (replicas_sigma peers). z = 0"
  shows "sigma_in_bounds (doMonteCarlo st d peers)"
proof -
  note b = mc_local_sigma_bounds [OF assms(1-6)]
  have "vsum (mc_local_sigma st d) (replicas_sigma peers) = mc_local_sigma st d"
    using b assms(7,8) by (simp add: vsum_zero)
  then have "sigma (doMonteCarlo st d peers) = mc_local_sigma st d"
    by (simp add: sigma_doMonteCarlo)
  then show ?thesis
    using b by (simp add: sigma_in_bounds_iff doMonteCarlo_bounds_fields)
qed

lemma doMonteCarlo_not_sampling:
  assumes "\<not> mc_do_sample st"
  shows "sigma (doMonteCarlo st d peers)
           = (if no_aver st \<and> rank st = 0
              then vsum (replicate (length (sigma st)) 0) (replicas_sigma peers)
              else replicate (length (sigma st)) 0)"
  using assms by (simp add: sigma_doMonteCarlo mc_local_sigma_def map_replicate_const)

lemma fold_max_ge: "a \<le> fold max xs (a::real)"
proof (induction xs arbitrary: a)
  case Nil then show ?case by simp
next
  case (Cons x xs)
  have "a \<le> max x a" by simp
  also have "\<dots> \<le> fold max xs (max x a)" by (rule Cons.IH)
  finally show ?case by simp
qed

lemma max_element_nonneg:
  assumes "xs \<noteq> []" "\<forall>x\<in>set xs. 0 \<le> x"
  shows "0 \<le> max_element xs"
proof -
  have "0 \<le> hd xs" using assms by simp
  also have "\<dots> \<le> fold max (tl xs) (hd xs)" by (rule fold_max_ge)
  finally show ?thesis by (simp add: max_element_def)
qed

lemma median_nonneg:
  assumes "xs \<noteq> []" "\<forall>x\<in>set xs. 0 \<le> (x::real)"
  shows "0 \<le> sort xs ! (length (sort xs) div 2)"
proof -
  have "length (sort xs) div 2 < length (sort xs)" using assms(1) by simp
  then have "sort xs ! (length (sort xs) div 2) \<in> set (sort xs)" by (rule nth_mem)
  then show ?thesis using assms(2) by simp
qed

lemma ssp_step_sampling:
  assumes "do_sampling st" and "GMM_d_beta st ! i = 0 \<or> GMM_d_beta st ! i = 1"
  shows "set_sampling_parameter e h c ini ob om i st
           = st\<lparr>sigma_mean := sigma_mean st @ [sigma_mean_of h c st i],
                sigma_min := sigma_min st @ [s0_exp_of e i],
                sigma_max := sigma_max st @ [2 * om + s0_exp_of e i + dsigma st],
                sigma := sigma st @
                  [max ((sigma_min st @ [s0_exp_of e i]) ! i)
                     (min ((sigma_max st @ [2 * om + s0_exp_of e i + dsigma st]) ! i) (ini * ob))]\<rparr>"
proof -
  from assms(2) show ?thesis
  proof
    assume "GMM_d_beta st ! i = 0"
    then show ?thesis using assms(1)
      by (simp add: set_sampling_parameter_def s0_exp_of_def sigma_mean_of_def)
         (simp add: Let_def)
  next
    assume "GMM_d_beta st ! i = 1"
    then show ?thesis using assms(1)
      by (simp add: set_sampling_parameter_def s0_exp_of_def sigma_mean_of_def)
         (simp add: Let_def)
  qed
qed

lemma ssp_fold_sampling:
  assumes "do_sampling st" and "sigma_mean st = []" and "sigma_min st = []"
    and "sigma_max st = []" and "sigma st = []"
    and "\<forall>b\<in>set (GMM_d_beta st). b = 0 \<or> b = 1"
  shows "k \<le> length (GMM_d_beta st) \<Longrightarrow>
         fold (set_sampling_parameter e h c ini ob om) [0..<k] st
           = st\<lparr>sigma_mean := map (sigma_mean_of h c st) [0..<k],
                sigma_min := map (s0_exp_of e) [0..<k],
                sigma_max := map (\<lambda>i. 2 * om + s0_exp_of e i + dsigma st) [0..<k],
                sigma := map (\<lambda>i. max (s0_exp_of e i)
                                     (min (2 * om + s0_exp_of e i + dsigma st) (ini * ob))) [0..<k]\<rparr>"
proof (induction k)
  case 0
  then show ?case using assms by simp
next
  case (Suc k)
  let ?sk = "st\<lparr>sigma_mean := map (sigma_mean_of h c st) [0..<k],
                sigma_min := map (s0_exp_of e) [0..<k],
                sigma_max := map (\<lambda>i. 2 * om + s0_exp_of e i + dsigma st) [0..<k],
                sigma := map (\<lambda>i. max (s0_exp_of e i)
                                     (min (2 * om + s0_exp_of e i + dsigma st) (ini * ob))) [0..<k]\<rparr>"
  from Suc.prems have k: "k < length (GMM_d_beta st)" by simp
  then have "GMM_d_beta st ! k \<in> set (GMM_d_beta st)" by (rule nth_mem)
  with assms(6) have b: "GMM_d_beta ?sk ! k = 0 \<or> GMM_d_beta ?sk ! k = 1" by simp
  have d: "do_sampling ?sk" using assms(1) by simp
  from Suc.IH k have IH: "fold (set_sampling_parameter e h c ini ob om) [0..<k] st = ?sk"
    by simp
  have "fold (set_sampling_parameter e h c ini ob om) [0..<Suc k] st
          = set_sampling_parameter e h c ini ob om k ?sk"
    by (simp add: IH)
  also have "\<dots> = st\<lparr>sigma_mean := map (sigma_mean_of h c st) [0..<Suc k],
                sigma_min := map (s0_exp_of e) [0..<Suc k],
                sigma_max := map (\<lambda>i. 2 * om + s0_exp_of e i + dsigma st) [0..<Suc k],
                sigma := map (\<lambda>i. max (s0_exp_of e i)
                                     (min (2 * om + s0_exp_of e i + dsigma st) (ini * ob))) [0..<Suc k]\<rparr>"
    unfolding ssp_step_sampling [OF d b]
    by (simp add: nth_append sigma_mean_of_def)
  finally show ?case .
qed

lemma ssp_step_marginal:
  assumes "\<not> do_sampling st" and "GMM_d_beta st ! i = 0 \<or> GMM_d_beta st ! i = 1"
  shows "set_sampling_parameter e h c ini ob om i st
           = st\<lparr>sigma_mean := sigma_mean st @ [sigma_mean_of h c st i],
                sigma0 := sigma0 st @
                  [sqrt (s0_exp_of e i * s0_exp_of e i
                         + (sigma_mean st @ [sigma_mean_of h c st i]) ! i
                           * (sigma_mean st @ [sigma_mean_of h c st i]) ! i)]\<rparr>"
proof -
  from assms(2) show ?thesis
  proof
    assume "GMM_d_beta st ! i = 0"
    then show ?thesis using assms(1)
      by (simp add: set_sampling_parameter_def s0_exp_of_def sigma_mean_of_def)
         (simp add: Let_def)
  next
    assume "GMM_d_beta st ! i = 1"
    then show ?thesis using assms(1)
      by (simp add: set_sampling_parameter_def s0_exp_of_def sigma_mean_of_def)
         (simp add: Let_def)
  qed
qed

lemma ssp_fold_marginal:
  assumes "\<not> do_sampling st" and "sigma_mean st = []" and "sigma0 st = []"
    and "\<forall>b\<in>set (GMM_d_beta st). b = 0 \<or> b = 1"
  shows "k \<le> length (GMM_d_beta st) \<Longrightarrow>
         fold (set_sampling_parameter e h c ini ob om) [0..<k] st
           = st\<lparr>sigma_mean := map (sigma_mean_of h c st) [0..<k],
                sigma0 := map (\<lambda>i. sqrt (s0_exp_of e i * s0_exp_of e i
                                     + sigma_mean_of h c st i * sigma_mean_of h c st i)) [0..<k]\<rparr>"
proof (induction k)
  case 0
  then show ?case using assms by simp
next
  case (Suc k)
  let ?sk = "st\<lparr>sigma_mean := map (sigma_mean_of h c st) [0..<k],
                sigma0 := map (\<lambda>i. sqrt (s0_exp_of e i * s0_exp_of e i
                                     + sigma_mean_of h c st i * sigma_mean_of h c st i)) [0..<k]\<rparr>"
  from Suc.prems have k: "k < length (GMM_d_beta st)" by simp
  then have "GMM_d_beta st ! k \<in> set (GMM_d_beta st)" by (rule nth_mem)
  with assms(4) have b: "GMM_d_beta ?sk ! k = 0 \<or> GMM_d_beta ?sk ! k = 1" by simp
  have d: "\<not> do_sampling ?sk" using assms(1) by simp
  from Suc.IH k have IH: "fold (set_sampling_parameter e h c ini ob om) [0..<k] st = ?sk"
    by simp
  have "fold (set_sampling_parameter e h c ini ob om) [0..<Suc k] st
          = set_sampling_parameter e h c ini ob om k ?sk"
    by (simp add: IH)
  also have "\<dots> = st\<lparr>sigma_mean := map (sigma_mean_of h c st) [0..<Suc k],
                sigma0 := map (\<lambda>i. sqrt (s0_exp_of e i * s0_exp_of e i
                                     + sigma_mean_of h c st i * sigma_mean_of h c st i)) [0..<Suc k]\<rparr>"
    unfolding ssp_step_marginal [OF d b]
    by (simp add: nth_append sigma_mean_of_def)
  finally show ?case .
qed

lemma set_sampling_parameters_sampling:
  assumes "do_sampling st" and "sigma_mean st = []" and "sigma_min st = []"
    and "sigma_max st = []" and "sigma st = []"
    and "\<forall>b\<in>set (GMM_d_beta st). b = 0 \<or> b = 1"
    and "length (GMM_d_beta st) = length (GMM_d_m st)"
    and "ovdd st \<noteq> []" and "\<forall>x\<in>set (ovdd st). 0 \<le> x" and "0 \<le> dsigma st"
  shows "sigma_in_bounds (set_sampling_parameters e h c ini st)
       \<and> length (sigma (set_sampling_parameters e h c ini st)) = length (GMM_d_m st)
       \<and> 0 \<le> dsigma (set_sampling_parameters e h c ini st)
       \<and> (\<forall>i<length (GMM_d_m st).
             dsigma (set_sampling_parameters e h c ini st)
               \<le> sigma_max (set_sampling_parameters e h c ini st) ! i
                 - sigma_min (set_sampling_parameters e h c ini st) ! i)"
proof -
  let ?ob = "sort (ovdd st) ! (length (sort (ovdd st)) div 2)"
  let ?om = "max_element (ovdd st)"
  let ?st0 = "st\<lparr>dsigma := dsigma st * ?ob\<rparr>"
  have ob: "0 \<le> ?ob" using assms(8,9) by (rule median_nonneg)
  have om: "0 \<le> ?om" using assms(8,9) by (rule max_element_nonneg)
  have ds: "0 \<le> dsigma st * ?ob" using assms(10) ob by simp
  have pre: "do_sampling ?st0" "sigma_mean ?st0 = []" "sigma_min ?st0 = []"
    "sigma_max ?st0 = []" "sigma ?st0 = []" "\<forall>b\<in>set (GMM_d_beta ?st0). b = 0 \<or> b = 1"
    using assms(1-6) by simp_all
  have le: "length (GMM_d_m ?st0) \<le> length (GMM_d_beta ?st0)" using assms(7) by simp
  have eq: "set_sampling_parameters e h c ini st
              = fold (set_sampling_parameter e h c ini ?ob ?om) [0..<length (GMM_d_m ?st0)] ?st0"
    by (simp add: set_sampling_parameters_def Let_def)
  show ?thesis
    unfolding eq ssp_fold_sampling [OF pre le]
    using ds om by (simp add: sigma_in_bounds_iff)
qed

text \<open>
  C5, as the code has it. In sampled mode \<^verbatim>\<open>sigma_\<close> lies within
  \<open>[sigma_min, sigma_max]\<close> after the constructor's loop (self overlaps non-negative,
  \<^verbatim>\<open>DSIGMA\<close> non-negative), which also leaves \<open>0 \<le> dsigma \<le> sigma_max - sigma_min\<close>; and
  after \<^verbatim>\<open>doMonteCarlo\<close> on the sampling worker, accepted or not, when it lay within the
  bounds before and the other replicas pass zeros. A worker that does not sample sets
  every entry to \<open>0\<close>; only a replica leader under \<^verbatim>\<open>NO_AVER\<close> then adds what the other
  replicas pass.
\<close>

theorem sigma_bounds_by_path:
  "(do_sampling sti \<and> sigma_mean sti = [] \<and> sigma_min sti = [] \<and> sigma_max sti = []
      \<and> sigma sti = [] \<and> list_all (\<lambda>b. b = 0 \<or> b = 1) (GMM_d_beta sti)
      \<and> length (GMM_d_beta sti) = length (GMM_d_m sti)
      \<and> ovdd sti \<noteq> [] \<and> list_all (\<lambda>x. 0 \<le> x) (ovdd sti) \<and> 0 \<le> dsigma sti \<longrightarrow>
      sigma_in_bounds (set_sampling_parameters e h c ini sti)
      \<and> length (sigma (set_sampling_parameters e h c ini sti)) = length (GMM_d_m sti)
      \<and> 0 \<le> dsigma (set_sampling_parameters e h c ini sti)
      \<and> (\<forall>i<length (GMM_d_m sti).
            dsigma (set_sampling_parameters e h c ini sti)
              \<le> sigma_max (set_sampling_parameters e h c ini sti) ! i
                - sigma_min (set_sampling_parameters e h c ini sti) ! i))
   \<and> (mc_do_sample st \<and> sigma_in_bounds st \<and> 0 \<le> u_shift d \<and> u_shift d < 1 \<and> 0 \<le> dsigma st
      \<and> (\<forall>i<length (sigma st). dsigma st \<le> sigma_max st ! i - sigma_min st ! i)
      \<and> length (replicas_sigma peers) = length (sigma st)
      \<and> list_all (\<lambda>z. z = 0) (replicas_sigma peers) \<longrightarrow>
      sigma_in_bounds (doMonteCarlo st d peers))
   \<and> (\<not> mc_do_sample st \<longrightarrow>
      sigma (doMonteCarlo st d peers)
        = (if no_aver st \<and> rank st = 0
           then vsum (replicate (length (sigma st)) 0) (replicas_sigma peers)
           else replicate (length (sigma st)) 0))"
proof (intro conjI impI)
  assume a: "do_sampling sti \<and> sigma_mean sti = [] \<and> sigma_min sti = [] \<and> sigma_max sti = []
      \<and> sigma sti = [] \<and> list_all (\<lambda>b. b = 0 \<or> b = 1) (GMM_d_beta sti)
      \<and> length (GMM_d_beta sti) = length (GMM_d_m sti)
      \<and> ovdd sti \<noteq> [] \<and> list_all (\<lambda>x. 0 \<le> x) (ovdd sti) \<and> 0 \<le> dsigma sti"
  then have "\<forall>b\<in>set (GMM_d_beta sti). b = 0 \<or> b = 1" "\<forall>x\<in>set (ovdd sti). 0 \<le> x"
    by (simp_all add: list_all_iff)
  with a have r: "sigma_in_bounds (set_sampling_parameters e h c ini sti)
       \<and> length (sigma (set_sampling_parameters e h c ini sti)) = length (GMM_d_m sti)
       \<and> 0 \<le> dsigma (set_sampling_parameters e h c ini sti)
       \<and> (\<forall>i<length (GMM_d_m sti).
             dsigma (set_sampling_parameters e h c ini sti)
               \<le> sigma_max (set_sampling_parameters e h c ini sti) ! i
                 - sigma_min (set_sampling_parameters e h c ini sti) ! i)"
    by (intro set_sampling_parameters_sampling) simp_all
  from r show "sigma_in_bounds (set_sampling_parameters e h c ini sti)" by simp
  from r show "length (sigma (set_sampling_parameters e h c ini sti)) = length (GMM_d_m sti)"
    by simp
  from r show "0 \<le> dsigma (set_sampling_parameters e h c ini sti)" by simp
  from r show "\<forall>i<length (GMM_d_m sti).
             dsigma (set_sampling_parameters e h c ini sti)
               \<le> sigma_max (set_sampling_parameters e h c ini sti) ! i
                 - sigma_min (set_sampling_parameters e h c ini sti) ! i" by simp
next
  assume b: "mc_do_sample st \<and> sigma_in_bounds st \<and> 0 \<le> u_shift d \<and> u_shift d < 1 \<and> 0 \<le> dsigma st
      \<and> (\<forall>i<length (sigma st). dsigma st \<le> sigma_max st ! i - sigma_min st ! i)
      \<and> length (replicas_sigma peers) = length (sigma st)
      \<and> list_all (\<lambda>z. z = 0) (replicas_sigma peers)"
  then have "\<forall>z\<in>set (replicas_sigma peers). z = 0" by (simp add: list_all_iff)
  with b show "sigma_in_bounds (doMonteCarlo st d peers)"
    by (intro doMonteCarlo_keeps_bounds) simp_all
next
  assume "\<not> mc_do_sample st"
  then show "sigma (doMonteCarlo st d peers)
        = (if no_aver st \<and> rank st = 0
           then vsum (replicate (length (sigma st)) 0) (replicas_sigma peers)
           else replicate (length (sigma st)) 0)"
    by (rule doMonteCarlo_not_sampling)
qed

text \<open>
  C5 as stated fails on a worker of rank 1: \<^verbatim>\<open>sigma_\<close> is within \<open>[1, 5]\<close> before the
  call and is \<open>0\<close> after it.
\<close>

theorem sigma_bounds_counterexample:
  "sigma_in_bounds worker_example
   \<and> \<not> sigma_in_bounds (doMonteCarlo worker_example draws_example no_replicas)"
  by (simp add: sigma_in_bounds_def doMonteCarlo_def mc_do_sample_def worker_example_def
        mc_example_def mc_initial_def example_state_def Let_def upt_rec [of 0] upt_rec [of 1])

theorem sigma_bounds_by_path_witness:
  "sigma_in_bounds (set_sampling_parameters (Some [1]) 1 1 1 init_example)
   \<and> sigma_in_bounds (doMonteCarlo mc_example draws_example no_replicas)
   \<and> sigma (doMonteCarlo worker_example draws_example no_replicas) = [0, 0]"
proof -
  have i: "do_sampling init_example \<and> sigma_mean init_example = [] \<and> sigma_min init_example = []
      \<and> sigma_max init_example = [] \<and> sigma init_example = []
      \<and> list_all (\<lambda>b. b = 0 \<or> b = 1) (GMM_d_beta init_example)
      \<and> length (GMM_d_beta init_example) = length (GMM_d_m init_example)
      \<and> ovdd init_example \<noteq> [] \<and> list_all (\<lambda>x. 0 \<le> x) (ovdd init_example)
      \<and> 0 \<le> dsigma init_example"
    by (simp add: init_example_def example_state_def)
  have f: "sigma mc_example = [4, 2]" "sigma_min mc_example = [1, 1]"
    "sigma_max mc_example = [5, 5]" "dsigma mc_example = 2"
    "rank mc_example = 0" "no_aver mc_example = False"
    by (simp_all add: mc_example_def mc_initial_def example_state_def)
  have m: "mc_do_sample mc_example \<and> sigma_in_bounds mc_example \<and> 0 \<le> u_shift draws_example
      \<and> u_shift draws_example < 1 \<and> 0 \<le> dsigma mc_example
      \<and> (\<forall>i<length (sigma mc_example). dsigma mc_example \<le> sigma_max mc_example ! i - sigma_min mc_example ! i)
      \<and> length (replicas_sigma no_replicas) = length (sigma mc_example)
      \<and> list_all (\<lambda>z. z = 0) (replicas_sigma no_replicas)"
    by (simp add: f mc_do_sample_def sigma_in_bounds_def draws_example_def no_replicas_def
          upt_rec [of 0] upt_rec [of 1] less_Suc_eq)
  have w: "\<not> mc_do_sample worker_example" "sigma worker_example = [4, 2]"
     "\<not> (no_aver worker_example \<and> rank worker_example = 0)"
    by (simp_all add: mc_do_sample_def worker_example_def f)
  note t = sigma_bounds_by_path [of init_example "Some [1]" 1 1 1 mc_example draws_example no_replicas]
  note t' = sigma_bounds_by_path [of init_example "Some [1]" 1 1 1 worker_example draws_example no_replicas]
  from t i m t' w show ?thesis by (simp add: numeral_2_eq_2)
qed

section \<open>Regression and the sampled score\<close>

lemma fold_add_sum:
  "fold (\<lambda>i (b::real). b + f i) js a = a + sum_list (map f js)"
  by (induction js arbitrary: a) simp_all

lemma fold_add_upt:
  "fold (\<lambda>i (b::real). b + f i) [0..<n] 0 = (\<Sum>i<n. f i)"
  by (simp add: fold_add_sum sum_list_sum_nth atLeast0LessThan)

lemma scale_doRegression_inv_s2:
  "scale (doRegression_inv_s2 w st)
     = (if regression_Bd w st \<le> 0 \<or> regression_Bn w st \<le> 0 then 1
        else regression_Bn w st / regression_Bd w st)"
  by (simp add: doRegression_inv_s2_def Let_def fold_add_upt regression_Bn_def regression_Bd_def)

lemma scale_doRegression:
  "scale (doRegression st)
     = (if regression_Bd (replicate (length (ovmd st)) 1) st \<le> 0
           \<or> regression_Bn (replicate (length (ovmd st)) 1) st \<le> 0 then 1
        else regression_Bn (replicate (length (ovmd st)) 1) st
               / regression_Bd (replicate (length (ovmd st)) 1) st)"
  by (simp add: doRegression_def Let_def fold_add_upt regression_Bn_def regression_Bd_def)

lemma regression_three:
  assumes "\<forall>i<length (ovmd st). ovdd st ! i = 3 * ovmd st ! i"
  shows "regression_Bn w st = 3 * regression_Bd w st"
proof -
  have "regression_Bn w st = (\<Sum>i<length (ovmd st). 3 * (ovmd st ! i * ovmd st ! i * w ! i))"
    unfolding regression_Bn_def using assms by (intro sum.cong) simp_all
  then show ?thesis by (simp add: regression_Bd_def sum_distrib_left)
qed

lemma vsum_replicate_zero: "length xs = n \<Longrightarrow> vsum xs (replicate n 0) = xs"
  by (rule vsum_zero) simp_all

lemma length_vsum: "length (vsum xs ys) = min (length xs) (length ys)"
  by (simp add: vsum_def)

lemma nth_vsum: "i < length xs \<Longrightarrow> i < length ys \<Longrightarrow> vsum xs ys ! i = xs ! i + ys ! i"
  by (simp add: vsum_def)

lemma sigma_reduce_leader:
  assumes "rank st = 0" and "ranks_pass_zeros st peers"
    and "averaging st \<longrightarrow> length (replicas_inv_s2 peers) = length (ovmd st)
                        \<and> length (replicas_ovmd peers) = length (ovmd st)"
  shows "snd (sigma_reduce st peers)
           = (if averaging st then vsum (inv_s2_local st) (replicas_inv_s2 peers)
              else inv_s2_local st)"
    and "fst (sigma_reduce st peers)
           = st\<lparr>ovmd := if averaging st
                          then map (\<lambda>x. x * (1 / real (nrep st))) (vsum (ovmd st) (replicas_ovmd peers))
                          else ovmd st\<rparr>"
  using assms
  by (simp_all add: sigma_reduce_def Let_def averaging_def ranks_pass_zeros_def inv_s2_local_def
        vsum_replicate_zero length_vsum)

lemma sigma_ene_sum:
  "sigma_ene st w
     = 0.5 * kbt st * (\<Sum>i<length (ovmd st). (scale st * ovmd st ! i - ovdd st ! i)\<^sup>2 * w ! i)"
  by (simp add: sigma_ene_def fold_add_upt power2_eq_square)

lemma snd_calculate_sigma:
  "snd (calculate_sigma st h peers d mcp)
     = sigma_ene (sigma_regression (fst (sigma_reduce st peers)) h (snd (sigma_reduce st peers)))
         (snd (sigma_reduce st peers))"
  by (simp add: calculate_sigma_def Let_def split: prod.splits)

lemma doRegression_fields:
  "ovmd (doRegression st) = ovmd st" "ovdd (doRegression st) = ovdd st"
  "kbt (doRegression st) = kbt st" "dsigma (doRegression st) = dsigma st"
  "ovmd (doRegression_inv_s2 w st) = ovmd st" "ovdd (doRegression_inv_s2 w st) = ovdd st"
  "kbt (doRegression_inv_s2 w st) = kbt st" "dsigma (doRegression_inv_s2 w st) = dsigma st"
  by (simp_all add: doRegression_def doRegression_inv_s2_def Let_def)

lemma sigma_regression_fields:
  "ovmd (sigma_regression st h w) = ovmd st" "ovdd (sigma_regression st h w) = ovdd st"
  "kbt (sigma_regression st h w) = kbt st" "dsigma (sigma_regression st h w) = dsigma st"
  by (simp_all add: sigma_regression_def doRegression_fields)

lemma sigma_reduce_fields:
  "ovdd (fst (sigma_reduce st peers)) = ovdd st" "kbt (fst (sigma_reduce st peers)) = kbt st"
  "scale (fst (sigma_reduce st peers)) = scale st"
  "nregres (fst (sigma_reduce st peers)) = nregres st"
  "no_weights (fst (sigma_reduce st peers)) = no_weights st"
  by (simp_all add: sigma_reduce_def Let_def)

lemma scale_doMonteCarlo: "scale (doMonteCarlo st d mcp) = scale st"
  by (simp add: doMonteCarlo_def Let_def split: prod.splits)

lemma scale_calculate_sigma:
  "scale (fst (calculate_sigma st h peers d mcp))
     = scale (sigma_regression (fst (sigma_reduce st peers)) h (snd (sigma_reduce st peers)))"
  by (simp add: calculate_sigma_def Let_def scale_doMonteCarlo split: prod.splits)

lemma sigma_reduce_prior:
  "sigma_reduce (st\<lparr>prior := p\<rparr>) peers
     = ((fst (sigma_reduce st peers))\<lparr>prior := p\<rparr>, snd (sigma_reduce st peers))"
  by (simp add: sigma_reduce_def Let_def)

lemma sigma_regression_prior:
  "sigma_regression (st\<lparr>prior := p\<rparr>) h w = (sigma_regression st h w)\<lparr>prior := p\<rparr>"
  by (simp add: sigma_regression_def doRegression_def doRegression_inv_s2_def Let_def)

lemma sigma_ene_prior: "sigma_ene (st\<lparr>prior := p\<rparr>) w = sigma_ene st w"
  by (simp add: sigma_ene_def)

lemma score_ignores_prior:
  "snd (calculate_sigma (st\<lparr>prior := p\<rparr>) h peers d mcp) = snd (calculate_sigma st h peers d mcp)"
  by (simp add: snd_calculate_sigma sigma_reduce_prior sigma_regression_prior sigma_ene_prior)

lemma mc_neighbor_step:
  "mc_neighbor st nGMM shift j (ns, oe, ne)
     = (ns @ [mc_new_s st shift (MCneigh st ! nGMM ! j)],
        oe + mc_old_term st (MCneigh st ! nGMM ! j),
        ne + mc_new_term st shift (MCneigh st ! nGMM ! j))"
  unfolding mc_neighbor_def mc_old_term_def mc_new_term_def mc_pre_def mc_old_s2_def
    mc_new_s2_def mc_new_s_def Let_def
  by simp

lemma mc_cluster_fold_energies:
  "snd (fold (mc_neighbor st nGMM shift) js (ns, oe, ne))
     = (oe + (\<Sum>j\<leftarrow>js. mc_old_term st (MCneigh st ! nGMM ! j)),
        ne + (\<Sum>j\<leftarrow>js. mc_new_term st shift (MCneigh st ! nGMM ! j)))"
  by (induction js arbitrary: ns oe ne) (simp_all add: mc_neighbor_step)

lemma mc_cluster_energies:
  "snd (mc_cluster st nGMM shift)
     = ((\<Sum>i\<leftarrow>MCneigh st ! nGMM. mc_old_term st i),
        (\<Sum>i\<leftarrow>MCneigh st ! nGMM. mc_new_term st shift i))"
proof -
  let ?ng = "MCneigh st ! nGMM"
  have m: "map (\<lambda>j. f (?ng ! j)) [0..<length ?ng] = map f ?ng" for f :: "nat \<Rightarrow> real"
  proof -
    have "map (\<lambda>j. f (?ng ! j)) [0..<length ?ng] = map f (map (\<lambda>j. ?ng ! j) [0..<length ?ng])"
      by simp
    also have "\<dots> = map f ?ng" by (simp only: map_nth)
    finally show ?thesis .
  qed
  show ?thesis
    unfolding mc_cluster_def mc_cluster_fold_energies
    by (simp add: m)
qed

lemma nth_inv_s2_local:
  "i < length (ovmd st) \<Longrightarrow>
   inv_s2_local st ! i = 1 / ((sigma_mean st ! i)\<^sup>2 + (sigma st ! i)\<^sup>2)"
  by (simp add: inv_s2_local_def power2_eq_square)

lemma length_inv_s2_local: "length (inv_s2_local st) = length (ovmd st)"
  by (simp add: inv_s2_local_def)

lemma sampled_score_general:
  "snd (calculate_sigma st h peers d mcp)
     = 0.5 * kbt st *
       (\<Sum>i<length (ovmd (fst (sigma_reduce st peers))).
          (scale (sigma_regression (fst (sigma_reduce st peers)) h (snd (sigma_reduce st peers)))
             * ovmd (fst (sigma_reduce st peers)) ! i - ovdd st ! i)\<^sup>2
          * snd (sigma_reduce st peers) ! i)"
  by (simp add: snd_calculate_sigma sigma_ene_sum sigma_regression_fields sigma_reduce_fields)

lemma sampled_score_single:
  assumes "rank st = 0" and "ranks_pass_zeros st peers" and "\<not> averaging st"
  shows "snd (calculate_sigma st h peers d mcp)
     = 0.5 * kbt st *
       (\<Sum>i<length (ovmd st).
          (scale (sigma_regression (fst (sigma_reduce st peers)) h (snd (sigma_reduce st peers)))
             * ovmd st ! i - ovdd st ! i)\<^sup>2
          / ((sigma_mean st ! i)\<^sup>2 + (sigma st ! i)\<^sup>2))"
proof -
  have f: "fst (sigma_reduce st peers) = st" and w: "snd (sigma_reduce st peers) = inv_s2_local st"
    using sigma_reduce_leader [OF assms(1,2)] assms(3) by simp_all
  show ?thesis
    unfolding sampled_score_general f w
    by (simp add: nth_inv_s2_local)
qed

lemma sampled_score_averaged:
  assumes "rank st = 0" and "ranks_pass_zeros st peers" and "averaging st"
    and "length (replicas_inv_s2 peers) = length (ovmd st)"
    and "length (replicas_ovmd peers) = length (ovmd st)"
  shows "snd (calculate_sigma st h peers d mcp)
     = 0.5 * kbt st *
       (\<Sum>i<length (ovmd st).
          (scale (sigma_regression (fst (sigma_reduce st peers)) h (snd (sigma_reduce st peers)))
             * ((ovmd st ! i + replicas_ovmd peers ! i) * (1 / real (nrep st))) - ovdd st ! i)\<^sup>2
          * (1 / ((sigma_mean st ! i)\<^sup>2 + (sigma st ! i)\<^sup>2) + replicas_inv_s2 peers ! i))"
proof -
  have f: "ovmd (fst (sigma_reduce st peers))
             = map (\<lambda>x. x * (1 / real (nrep st))) (vsum (ovmd st) (replicas_ovmd peers))"
    and w: "snd (sigma_reduce st peers) = vsum (inv_s2_local st) (replicas_inv_s2 peers)"
    using sigma_reduce_leader [OF assms(1,2)] assms(3-5) by simp_all
  show ?thesis
    unfolding sampled_score_general f w
    using assms(4,5)
    by (simp add: length_vsum nth_vsum nth_inv_s2_local length_inv_s2_local)
qed

text \<open>
  C3, as the code has it. The value set for \<^verbatim>\<open>scoreb\<close> in sampled mode is
  \<open>kbt / 2\<close> times the sum of \<open>(scale * ovmd - ovdd)\<^sup>2 * inv_s2\<close> after the reductions. On
  the worker of rank 0 without averaging over replicas, \<open>inv_s2\<close> is
  \<open>1 / (sigma_mean\<^sup>2 + sigma\<^sup>2)\<close>; with averaging over several replicas, \<open>ovmd\<close> is the
  average over the replicas and \<open>inv_s2\<close> is the sum over the replicas of that term. The
  score does not depend on \<^verbatim>\<open>prior_\<close>, which enters the old and the new energy of the
  Monte Carlo move.
\<close>

theorem sampled_score:
  "snd (calculate_sigma st h peers d mcp)
     = 0.5 * kbt st *
       (\<Sum>i<length (ovmd (fst (sigma_reduce st peers))).
          (scale (sigma_regression (fst (sigma_reduce st peers)) h (snd (sigma_reduce st peers)))
             * ovmd (fst (sigma_reduce st peers)) ! i - ovdd st ! i)\<^sup>2
          * snd (sigma_reduce st peers) ! i)
   \<and> (rank st = 0 \<and> ranks_pass_zeros st peers \<and> \<not> averaging st \<longrightarrow>
        snd (calculate_sigma st h peers d mcp)
          = 0.5 * kbt st *
            (\<Sum>i<length (ovmd st).
               (scale (sigma_regression (fst (sigma_reduce st peers)) h (snd (sigma_reduce st peers)))
                  * ovmd st ! i - ovdd st ! i)\<^sup>2
               / ((sigma_mean st ! i)\<^sup>2 + (sigma st ! i)\<^sup>2)))
   \<and> (rank st = 0 \<and> ranks_pass_zeros st peers \<and> averaging st
        \<and> length (replicas_inv_s2 peers) = length (ovmd st)
        \<and> length (replicas_ovmd peers) = length (ovmd st) \<longrightarrow>
        snd (calculate_sigma st h peers d mcp)
          = 0.5 * kbt st *
            (\<Sum>i<length (ovmd st).
               (scale (sigma_regression (fst (sigma_reduce st peers)) h (snd (sigma_reduce st peers)))
                  * ((ovmd st ! i + replicas_ovmd peers ! i) * (1 / real (nrep st))) - ovdd st ! i)\<^sup>2
               * (1 / ((sigma_mean st ! i)\<^sup>2 + (sigma st ! i)\<^sup>2) + replicas_inv_s2 peers ! i)))
   \<and> snd (calculate_sigma (st\<lparr>prior := p\<rparr>) h peers d mcp) = snd (calculate_sigma st h peers d mcp)
   \<and> snd (mc_cluster st nGMM shift)
        = ((\<Sum>i\<leftarrow>MCneigh st ! nGMM. mc_pre st i / mc_old_s2 st i
                                     + kbt st * prior st * ln (mc_old_s2 st i)),
           (\<Sum>i\<leftarrow>MCneigh st ! nGMM. mc_pre st i / mc_new_s2 st shift i
                                     + kbt st * prior st * ln (mc_new_s2 st shift i)))"
proof (intro conjI impI)
  show "snd (calculate_sigma st h peers d mcp)
     = 0.5 * kbt st *
       (\<Sum>i<length (ovmd (fst (sigma_reduce st peers))).
          (scale (sigma_regression (fst (sigma_reduce st peers)) h (snd (sigma_reduce st peers)))
             * ovmd (fst (sigma_reduce st peers)) ! i - ovdd st ! i)\<^sup>2
          * snd (sigma_reduce st peers) ! i)"
    by (rule sampled_score_general)
next
  assume "rank st = 0 \<and> ranks_pass_zeros st peers \<and> \<not> averaging st"
  then show "snd (calculate_sigma st h peers d mcp)
          = 0.5 * kbt st *
            (\<Sum>i<length (ovmd st).
               (scale (sigma_regression (fst (sigma_reduce st peers)) h (snd (sigma_reduce st peers)))
                  * ovmd st ! i - ovdd st ! i)\<^sup>2
               / ((sigma_mean st ! i)\<^sup>2 + (sigma st ! i)\<^sup>2))"
    by (intro sampled_score_single) simp_all
next
  assume "rank st = 0 \<and> ranks_pass_zeros st peers \<and> averaging st
        \<and> length (replicas_inv_s2 peers) = length (ovmd st)
        \<and> length (replicas_ovmd peers) = length (ovmd st)"
  then show "snd (calculate_sigma st h peers d mcp)
          = 0.5 * kbt st *
            (\<Sum>i<length (ovmd st).
               (scale (sigma_regression (fst (sigma_reduce st peers)) h (snd (sigma_reduce st peers)))
                  * ((ovmd st ! i + replicas_ovmd peers ! i) * (1 / real (nrep st))) - ovdd st ! i)\<^sup>2
               * (1 / ((sigma_mean st ! i)\<^sup>2 + (sigma st ! i)\<^sup>2) + replicas_inv_s2 peers ! i))"
    by (intro sampled_score_averaged) simp_all
next
  show "snd (calculate_sigma (st\<lparr>prior := p\<rparr>) h peers d mcp) = snd (calculate_sigma st h peers d mcp)"
    by (rule score_ignores_prior)
next
  show "snd (mc_cluster st nGMM shift)
        = ((\<Sum>i\<leftarrow>MCneigh st ! nGMM. mc_pre st i / mc_old_s2 st i
                                     + kbt st * prior st * ln (mc_old_s2 st i)),
           (\<Sum>i\<leftarrow>MCneigh st ! nGMM. mc_pre st i / mc_new_s2 st shift i
                                     + kbt st * prior st * ln (mc_new_s2 st shift i)))"
    by (simp add: mc_cluster_energies mc_old_term_def mc_new_term_def)
qed

lemma score_example_fields:
  "ovmd score_example = [1]" "ovdd score_example = [2]" "sigma score_example = [1]"
  "sigma_mean score_example = [0]" "kbt score_example = 1" "scale score_example = 1"
  "rank score_example = 0" "size_comm score_example = 1" "nrep score_example = 1"
  "no_aver score_example = False" "nregres score_example = 0" "dsigma score_example = 0"
  by (simp_all add: score_example_def example_state_def)

lemma averaging_example_fields:
  "ovmd averaging_example = [1]" "ovdd averaging_example = [2]" "sigma averaging_example = [1]"
  "sigma_mean averaging_example = [0]" "kbt averaging_example = 1" "scale averaging_example = 1"
  "rank averaging_example = 0" "size_comm averaging_example = 1" "nrep averaging_example = 2"
  "no_aver averaging_example = False" "nregres averaging_example = 0" "dsigma averaging_example = 0"
  by (simp_all add: averaging_example_def score_example_fields)

lemma one_replica_more_fields:
  "replicas_ovmd one_replica_more = [1]" "replicas_inv_s2 one_replica_more = [1]"
  "ranks_ovmd one_replica_more = []" "ranks_inv_s2 one_replica_more = []"
  by (simp_all add: one_replica_more_def)

lemma averaging_example_score:
  "snd (calculate_sigma averaging_example host_example one_replica_more draws_example no_replicas) = 1"
  by (simp add: calculate_sigma_def sigma_reduce_def sigma_regression_def sigma_ene_def
        averaging_example_fields one_replica_more_def vsum_def Let_def)

text \<open>
  C3 as stated fails with two replicas that average and one data component: both
  replicas hold \<open>sigma = 1\<close>, \<open>sigma_mean = 0\<close>, \<open>ovmd = 1\<close>, against \<open>ovdd = 2\<close>. The code's score is \<open>1\<close>, the
  formula of the claim gives \<open>1 / 2\<close>.
\<close>

theorem sampled_score_counterexample:
  "snd (calculate_sigma averaging_example host_example one_replica_more draws_example no_replicas)
     \<noteq> 0.5 * kbt averaging_example *
         ((scale averaging_example * ovmd averaging_example ! 0 - ovdd averaging_example ! 0)\<^sup>2
          / ((sigma_mean averaging_example ! 0)\<^sup>2 + (sigma averaging_example ! 0)\<^sup>2))"
  by (simp add: averaging_example_score averaging_example_fields)

theorem sampled_score_witness:
  "snd (calculate_sigma score_example host_example one_replica_more draws_example no_replicas) = 1 / 2
   \<and> snd (calculate_sigma averaging_example host_example one_replica_more draws_example no_replicas) = 1"
proof -
  have a: "rank score_example = 0 \<and> ranks_pass_zeros score_example one_replica_more
           \<and> \<not> averaging score_example"
    by (simp add: ranks_pass_zeros_def averaging_def score_example_fields)
  have b: "rank averaging_example = 0 \<and> ranks_pass_zeros averaging_example one_replica_more
        \<and> averaging averaging_example
        \<and> length (replicas_inv_s2 one_replica_more) = length (ovmd averaging_example)
        \<and> length (replicas_ovmd one_replica_more) = length (ovmd averaging_example)"
    by (simp add: ranks_pass_zeros_def averaging_def averaging_example_fields one_replica_more_def)
  have r1: "scale (sigma_regression (fst (sigma_reduce score_example one_replica_more)) host_example
              (snd (sigma_reduce score_example one_replica_more))) = 1"
    by (simp add: sigma_regression_def sigma_reduce_fields score_example_fields)
  have r2: "scale (sigma_regression (fst (sigma_reduce averaging_example one_replica_more)) host_example
              (snd (sigma_reduce averaging_example one_replica_more))) = 1"
    by (simp add: sigma_regression_def sigma_reduce_fields averaging_example_fields)
  note t1 = sampled_score [of score_example host_example one_replica_more draws_example no_replicas]
  note t2 = sampled_score [of averaging_example host_example one_replica_more draws_example no_replicas]
  from t1 [THEN conjunct2, THEN conjunct1, rule_format, OF a]
  have "snd (calculate_sigma score_example host_example one_replica_more draws_example no_replicas) = 1 / 2"
    by (simp add: r1 score_example_fields)
  moreover from t2 [THEN conjunct2, THEN conjunct2, THEN conjunct1, rule_format, OF b]
  have "snd (calculate_sigma averaging_example host_example one_replica_more draws_example no_replicas) = 1"
    by (simp add: r2 averaging_example_fields one_replica_more_fields)
  ultimately show ?thesis by simp
qed

lemma regression_three_scale:
  assumes "\<forall>i<length (ovmd st). ovdd st ! i = 3 * ovmd st ! i"
    and "0 < regression_Bd w st" and "0 < regression_Bn w st"
  shows "regression_Bn w st / regression_Bd w st = 3"
  using regression_three [OF assms(1), of w] assms(2) by simp

lemma inv_s2_local_eq:
  "inv_s2_local st
     = map (\<lambda>i. 1 / ((sigma_mean st ! i)\<^sup>2 + (sigma st ! i)\<^sup>2)) [0..<length (ovmd st)]"
  by (simp add: inv_s2_local_def power2_eq_square)

text \<open>
  C6, as the code has it. Both regressions set \<^verbatim>\<open>scale_\<close> to \<open>Bn / Bd\<close>, the sums of
  \<open>ovmd * ovdd * w\<close> and of \<open>ovmd * ovmd * w\<close>, and to \<open>1\<close> exactly when \<open>Bd \<le> 0\<close> or
  \<open>Bn \<le> 0\<close>; \<open>w\<close> is \<open>1\<close> in the non-weighted regression and \<^verbatim>\<open>inv_s2\<close> in the weighted
  one, which \<^verbatim>\<open>calculate_sigma\<close> calls unless \<^verbatim>\<open>NO_WEIGHTS\<close> is set. On the worker of
  rank 0, \<^verbatim>\<open>inv_s2\<close> is \<open>1 / (sigma_mean\<^sup>2 + sigma\<^sup>2)\<close> without averaging over replicas, and
  the sum of these terms over the replicas with it. With \<open>ovdd = 3 * ovmd\<close> in every
  component and positive sums, the scale is \<open>3\<close>.
\<close>

theorem regression_scale:
  "scale (doRegression st)
     = (if regression_Bd (replicate (length (ovmd st)) 1) st \<le> 0
           \<or> regression_Bn (replicate (length (ovmd st)) 1) st \<le> 0 then 1
        else regression_Bn (replicate (length (ovmd st)) 1) st
               / regression_Bd (replicate (length (ovmd st)) 1) st)
   \<and> scale (doRegression_inv_s2 w st)
     = (if regression_Bd w st \<le> 0 \<or> regression_Bn w st \<le> 0 then 1
        else regression_Bn w st / regression_Bd w st)
   \<and> (nregres st > 0 \<and> getStep h mod int (nregres st) = 0 \<and> \<not> getExchangeStep h \<longrightarrow>
        scale (fst (calculate_sigma st h peers d mcp))
          = (if no_weights st then scale (doRegression (fst (sigma_reduce st peers)))
             else scale (doRegression_inv_s2 (snd (sigma_reduce st peers))
                           (fst (sigma_reduce st peers)))))
   \<and> (rank st = 0 \<and> ranks_pass_zeros st peers \<and> \<not> averaging st \<longrightarrow>
        snd (sigma_reduce st peers)
          = map (\<lambda>i. 1 / ((sigma_mean st ! i)\<^sup>2 + (sigma st ! i)\<^sup>2)) [0..<length (ovmd st)])
   \<and> (rank st = 0 \<and> ranks_pass_zeros st peers \<and> averaging st
        \<and> length (replicas_inv_s2 peers) = length (ovmd st)
        \<and> length (replicas_ovmd peers) = length (ovmd st) \<longrightarrow>
        snd (sigma_reduce st peers)
          = vsum (map (\<lambda>i. 1 / ((sigma_mean st ! i)\<^sup>2 + (sigma st ! i)\<^sup>2)) [0..<length (ovmd st)])
              (replicas_inv_s2 peers))
   \<and> ((\<forall>i<length (ovmd st). ovdd st ! i = 3 * ovmd st ! i)
        \<and> 0 < regression_Bd w st \<and> 0 < regression_Bn w st \<longrightarrow>
        scale (doRegression_inv_s2 w st) = 3)
   \<and> ((\<forall>i<length (ovmd st). ovdd st ! i = 3 * ovmd st ! i)
        \<and> 0 < regression_Bd (replicate (length (ovmd st)) 1) st
        \<and> 0 < regression_Bn (replicate (length (ovmd st)) 1) st \<longrightarrow>
        scale (doRegression st) = 3)"
proof (intro conjI impI)
  show "scale (doRegression st)
     = (if regression_Bd (replicate (length (ovmd st)) 1) st \<le> 0
           \<or> regression_Bn (replicate (length (ovmd st)) 1) st \<le> 0 then 1
        else regression_Bn (replicate (length (ovmd st)) 1) st
               / regression_Bd (replicate (length (ovmd st)) 1) st)"
    by (rule scale_doRegression)
next
  show "scale (doRegression_inv_s2 w st)
     = (if regression_Bd w st \<le> 0 \<or> regression_Bn w st \<le> 0 then 1
        else regression_Bn w st / regression_Bd w st)"
    by (rule scale_doRegression_inv_s2)
next
  assume "nregres st > 0 \<and> getStep h mod int (nregres st) = 0 \<and> \<not> getExchangeStep h"
  then show "scale (fst (calculate_sigma st h peers d mcp))
          = (if no_weights st then scale (doRegression (fst (sigma_reduce st peers)))
             else scale (doRegression_inv_s2 (snd (sigma_reduce st peers))
                           (fst (sigma_reduce st peers))))"
    by (simp add: scale_calculate_sigma sigma_regression_def sigma_reduce_fields)
next
  assume "rank st = 0 \<and> ranks_pass_zeros st peers \<and> \<not> averaging st"
  then show "snd (sigma_reduce st peers)
          = map (\<lambda>i. 1 / ((sigma_mean st ! i)\<^sup>2 + (sigma st ! i)\<^sup>2)) [0..<length (ovmd st)]"
    using sigma_reduce_leader(1) [of st peers] by (simp add: inv_s2_local_eq)
next
  assume "rank st = 0 \<and> ranks_pass_zeros st peers \<and> averaging st
        \<and> length (replicas_inv_s2 peers) = length (ovmd st)
        \<and> length (replicas_ovmd peers) = length (ovmd st)"
  then show "snd (sigma_reduce st peers)
          = vsum (map (\<lambda>i. 1 / ((sigma_mean st ! i)\<^sup>2 + (sigma st ! i)\<^sup>2)) [0..<length (ovmd st)])
              (replicas_inv_s2 peers)"
    using sigma_reduce_leader(1) [of st peers] by (simp add: inv_s2_local_eq)
next
  assume a: "(\<forall>i<length (ovmd st). ovdd st ! i = 3 * ovmd st ! i)
        \<and> 0 < regression_Bd w st \<and> 0 < regression_Bn w st"
  then have "regression_Bn w st / regression_Bd w st = 3"
    by (intro regression_three_scale) simp_all
  with a show "scale (doRegression_inv_s2 w st) = 3"
    by (simp add: scale_doRegression_inv_s2)
next
  let ?w = "replicate (length (ovmd st)) (1::real)"
  assume a: "(\<forall>i<length (ovmd st). ovdd st ! i = 3 * ovmd st ! i)
        \<and> 0 < regression_Bd ?w st \<and> 0 < regression_Bn ?w st"
  then have "regression_Bn ?w st / regression_Bd ?w st = 3"
    by (intro regression_three_scale) simp_all
  with a show "scale (doRegression st) = 3"
    by (simp add: scale_doRegression)
qed

lemma regression_example_fields:
  "ovmd regression_example = [1, 1]" "ovdd regression_example = [1, 2]"
  "sigma regression_example = [1, 1]" "sigma_mean regression_example = [0, 0]"
  "kbt regression_example = 1" "scale regression_example = 1"
  "rank regression_example = 0" "size_comm regression_example = 1" "nrep regression_example = 2"
  "no_aver regression_example = False" "nregres regression_example = 1"
  "dsigma regression_example = 0" "no_weights regression_example = False"
  by (simp_all add: regression_example_def example_state_def)

lemma uneven_replica_fields:
  "replicas_ovmd uneven_replica = [1, 1]" "replicas_inv_s2 uneven_replica = [1, 4]"
  "ranks_ovmd uneven_replica = []" "ranks_inv_s2 uneven_replica = []"
  by (simp_all add: uneven_replica_def)

lemma host_example_fields:
  "getStep host_example = 0" "getExchangeStep host_example = False"
  by (simp_all add: host_example_def)

lemma regression_example_reduce:
  "ovmd (fst (sigma_reduce regression_example uneven_replica)) = [1, 1]"
  "snd (sigma_reduce regression_example uneven_replica) = [2, 5]"
  by (simp_all add: sigma_reduce_def Let_def regression_example_fields uneven_replica_fields
        vsum_def upt_rec [of 0] upt_rec [of 1])

lemma regression_example_scale:
  "scale (fst (calculate_sigma regression_example host_example uneven_replica draws_example no_replicas))
     = 12 / 7"
  by (simp add: scale_calculate_sigma sigma_regression_def sigma_reduce_fields
        regression_example_fields host_example_fields doRegression_inv_s2_def Let_def
        regression_example_reduce upt_rec [of 0] upt_rec [of 1])

text \<open>
  C6 as stated fails in the weighted regression with two replicas that average and hold
  different \<open>sigma\<close>: the weights of the code are \<open>[2, 5]\<close>, those of the claim \<open>[1, 1]\<close>;
  the code's scale is \<open>12 / 7\<close>, the claim's \<open>3 / 2\<close>.
\<close>

theorem regression_scale_counterexample:
  "scale (fst (calculate_sigma regression_example host_example uneven_replica draws_example no_replicas))
     \<noteq> regression_Bn
          [1 / ((sigma_mean regression_example ! 0)\<^sup>2 + (sigma regression_example ! 0)\<^sup>2),
           1 / ((sigma_mean regression_example ! 1)\<^sup>2 + (sigma regression_example ! 1)\<^sup>2)]
          (fst (sigma_reduce regression_example uneven_replica))
       / regression_Bd
          [1 / ((sigma_mean regression_example ! 0)\<^sup>2 + (sigma regression_example ! 0)\<^sup>2),
           1 / ((sigma_mean regression_example ! 1)\<^sup>2 + (sigma regression_example ! 1)\<^sup>2)]
          (fst (sigma_reduce regression_example uneven_replica))
   \<and> 0 < regression_Bn
          [1 / ((sigma_mean regression_example ! 0)\<^sup>2 + (sigma regression_example ! 0)\<^sup>2),
           1 / ((sigma_mean regression_example ! 1)\<^sup>2 + (sigma regression_example ! 1)\<^sup>2)]
          (fst (sigma_reduce regression_example uneven_replica))
   \<and> 0 < regression_Bd
          [1 / ((sigma_mean regression_example ! 0)\<^sup>2 + (sigma regression_example ! 0)\<^sup>2),
           1 / ((sigma_mean regression_example ! 1)\<^sup>2 + (sigma regression_example ! 1)\<^sup>2)]
          (fst (sigma_reduce regression_example uneven_replica))"
  by (simp add: regression_example_scale regression_Bn_def regression_Bd_def
        regression_example_reduce sigma_reduce_fields regression_example_fields numeral_2_eq_2)

lemma triple_example_fields:
  "ovmd triple_example = [1, 2]" "ovdd triple_example = [3, 6]"
  "sigma triple_example = [1, 1]" "sigma_mean triple_example = [0, 0]"
  "rank triple_example = 0" "size_comm triple_example = 1" "nrep triple_example = 1"
  "no_aver triple_example = False" "nregres triple_example = 1"
  "no_weights triple_example = False"
  by (simp_all add: triple_example_def example_state_def)

theorem regression_scale_witness:
  "scale (fst (calculate_sigma triple_example host_example uneven_replica draws_example no_replicas)) = 3
   \<and> scale (doRegression triple_example) = 3
   \<and> snd (sigma_reduce triple_example uneven_replica) = [1, 1]
   \<and> snd (sigma_reduce regression_example uneven_replica) = [2, 5]"
proof -
  note t = regression_scale [of triple_example "[1, 1]" host_example uneven_replica draws_example no_replicas]
  note u = regression_scale [of regression_example "[1, 1]" host_example uneven_replica draws_example no_replicas]
  have trig: "nregres triple_example > 0 \<and> getStep host_example mod int (nregres triple_example) = 0
              \<and> \<not> getExchangeStep host_example"
    by (simp add: triple_example_fields host_example_fields)
  have single: "rank triple_example = 0 \<and> ranks_pass_zeros triple_example uneven_replica
                \<and> \<not> averaging triple_example"
    by (simp add: ranks_pass_zeros_def averaging_def triple_example_fields)
  have aver: "rank regression_example = 0 \<and> ranks_pass_zeros regression_example uneven_replica
        \<and> averaging regression_example
        \<and> length (replicas_inv_s2 uneven_replica) = length (ovmd regression_example)
        \<and> length (replicas_ovmd uneven_replica) = length (ovmd regression_example)"
    by (simp add: ranks_pass_zeros_def averaging_def regression_example_fields uneven_replica_fields)
  have three: "(\<forall>i<length (ovmd triple_example). ovdd triple_example ! i = 3 * ovmd triple_example ! i)"
    by (simp add: triple_example_fields less_Suc_eq numeral_2_eq_2)
  have sums: "regression_Bd [1, 1] triple_example = 5" "regression_Bn [1, 1] triple_example = 15"
    by (simp_all add: regression_Bd_def regression_Bn_def triple_example_fields numeral_2_eq_2)
  have rep: "replicate (length (ovmd triple_example)) (1::real) = [1, 1]"
    by (simp add: triple_example_fields numeral_2_eq_2)
  from t have c: "snd (sigma_reduce triple_example uneven_replica)
          = map (\<lambda>i. 1 / ((sigma_mean triple_example ! i)\<^sup>2 + (sigma triple_example ! i)\<^sup>2))
              [0..<length (ovmd triple_example)]"
    using single by blast
  then have w1: "snd (sigma_reduce triple_example uneven_replica) = [1, 1]"
    by (simp add: triple_example_fields upt_rec [of 0] upt_rec [of 1])
  have f1: "fst (sigma_reduce triple_example uneven_replica) = triple_example"
    using sigma_reduce_leader(2) [of triple_example uneven_replica] single by simp
  from t have "scale (doRegression_inv_s2 [1, 1] triple_example) = 3"
    using three sums by simp
  moreover from t trig
  have "scale (fst (calculate_sigma triple_example host_example uneven_replica draws_example no_replicas))
          = scale (doRegression_inv_s2 (snd (sigma_reduce triple_example uneven_replica))
                     (fst (sigma_reduce triple_example uneven_replica)))"
    by (simp add: triple_example_fields)
  ultimately have r1: "scale (fst (calculate_sigma triple_example host_example uneven_replica
                         draws_example no_replicas)) = 3"
    by (simp add: w1 f1)
  from t have r2: "scale (doRegression triple_example) = 3"
    using three sums by (simp add: rep)
  from u have "snd (sigma_reduce regression_example uneven_replica)
          = vsum (map (\<lambda>i. 1 / ((sigma_mean regression_example ! i)\<^sup>2
                                    + (sigma regression_example ! i)\<^sup>2))
                    [0..<length (ovmd regression_example)])
              (replicas_inv_s2 uneven_replica)"
    using aver by blast
  then have r3: "snd (sigma_reduce regression_example uneven_replica) = [2, 5]"
    by (simp add: regression_example_fields uneven_replica_fields vsum_def
          upt_rec [of 0] upt_rec [of 1])
  from r1 r2 w1 r3 show ?thesis by simp
qed

section \<open>The marginal score\<close>

lemma inv_sqrt2_close: "\<bar>inv_sqrt2 - 1 / sqrt 2\<bar> < 1 / 10 ^ 15"
proof -
  have e: "1 / sqrt 2 = sqrt (1 / 2)" by (simp add: real_sqrt_divide)
  have "(707106781186547 / 1000000000000000 :: real)\<^sup>2 < 1 / 2"
    by (simp add: power2_eq_square)
  then have lo: "707106781186547 / 1000000000000000 < sqrt (1 / 2)" by (rule real_less_rsqrt)
  have "(1 / 2 :: real) < (707106781186549 / 1000000000000000)\<^sup>2"
    by (simp add: power2_eq_square)
  then have hi: "sqrt (1 / 2) < 707106781186549 / 1000000000000000"
    by (intro real_less_lsqrt) simp_all
  have c: "inv_sqrt2 = 707106781186548 / 1000000000000000" by (simp add: inv_sqrt2_def)
  have p: "(1::real) / 10 ^ 15 = 1 / 1000000000000000" by simp
  from lo hi show ?thesis unfolding e c p by linarith
qed

lemma marginal_component_step:
  "marginal_component erf i (st, ene)
     = (st\<lparr>err_f := (err_f st)[i := erf (marginal_dev st i * inv_sqrt2)],
            exp_f := (exp_f st)[i := exp (- 0.5 * marginal_dev st i * marginal_dev st i)]\<rparr>,
        ene + - ln (0.5 / marginal_dev st i
                    * (err_f st)[i := erf (marginal_dev st i * inv_sqrt2)] ! i))"
  unfolding marginal_component_def marginal_dev_def Let_def by simp

lemma marginal_dev_update:
  "marginal_dev (st\<lparr>err_f := a, exp_f := b\<rparr>) k = marginal_dev st k"
  by (simp add: marginal_dev_def)

lemma marginal_same_update: "marginal_same (st\<lparr>err_f := (err_f st)[i := a], exp_f := b\<rparr>) st"
  by (simp add: marginal_same_def)

lemma marginal_same_trans: "marginal_same s t \<Longrightarrow> marginal_same t u \<Longrightarrow> marginal_same s u"
  by (simp add: marginal_same_def)

lemma marginal_fold:
  assumes "\<forall>i\<in>set js. i < length (err_f st)"
  shows "marginal_same (fst (fold (marginal_component erf) js (st, ene))) st
       \<and> snd (fold (marginal_component erf) js (st, ene))
           = ene + (\<Sum>i\<leftarrow>js. - ln (1 / (2 * marginal_dev st i) * erf (marginal_dev st i * inv_sqrt2)))"
  using assms
proof (induction js arbitrary: st ene)
  case Nil
  then show ?case by (simp add: marginal_same_def)
next
  case (Cons i js)
  define st1 where "st1 = st\<lparr>err_f := (err_f st)[i := erf (marginal_dev st i * inv_sqrt2)],
            exp_f := (exp_f st)[i := exp (- 0.5 * marginal_dev st i * marginal_dev st i)]\<rparr>"
  define ene1 where "ene1 = ene + - ln (0.5 / marginal_dev st i
                    * (err_f st)[i := erf (marginal_dev st i * inv_sqrt2)] ! i)"
  have i: "i < length (err_f st)" using Cons.prems by simp
  have same: "marginal_same st1 st" unfolding st1_def by (rule marginal_same_update)
  have dev: "marginal_dev st1 k = marginal_dev st k" for k
    unfolding st1_def by (rule marginal_dev_update)
  have "length (err_f st1) = length (err_f st)" using same by (simp add: marginal_same_def)
  then have "\<forall>k\<in>set js. k < length (err_f st1)" using Cons.prems by simp
  from Cons.IH [OF this, of ene1]
  have ih1: "marginal_same (fst (fold (marginal_component erf) js (st1, ene1))) st1"
    and ih2: "snd (fold (marginal_component erf) js (st1, ene1))
       = ene1 + (\<Sum>k\<leftarrow>js. - ln (1 / (2 * marginal_dev st k) * erf (marginal_dev st k * inv_sqrt2)))"
    by (simp_all only: dev)
  have e: "ene1 = ene + - ln (1 / (2 * marginal_dev st i) * erf (marginal_dev st i * inv_sqrt2))"
    unfolding ene1_def using i by simp
  have f: "fold (marginal_component erf) (i # js) (st, ene)
             = fold (marginal_component erf) js (st1, ene1)"
    unfolding st1_def ene1_def by (simp only: fold_simps marginal_component_step o_apply)
  have "marginal_same (fst (fold (marginal_component erf) js (st1, ene1))) st"
    using ih1 same by (rule marginal_same_trans)
  moreover have "snd (fold (marginal_component erf) js (st1, ene1))
      = ene + (\<Sum>k\<leftarrow>i # js. - ln (1 / (2 * marginal_dev st k) * erf (marginal_dev st k * inv_sqrt2)))"
    using ih2 by (simp add: e)
  ultimately show ?case unfolding f by simp
qed

lemma marginal_reduce_fields:
  "scale (marginal_reduce st peers) = scale st" "ovdd (marginal_reduce st peers) = ovdd st"
  "sigma0 (marginal_reduce st peers) = sigma0 st" "kbt (marginal_reduce st peers) = kbt st"
  "nrep (marginal_reduce st peers) = nrep st" "err_f (marginal_reduce st peers) = err_f st"
  by (simp_all add: marginal_reduce_def Let_def)

lemma marginal_regression_fields:
  "ovmd (marginal_regression st h) = ovmd st" "ovdd (marginal_regression st h) = ovdd st"
  "sigma0 (marginal_regression st h) = sigma0 st" "kbt (marginal_regression st h) = kbt st"
  "nrep (marginal_regression st h) = nrep st" "err_f (marginal_regression st h) = err_f st"
  by (simp_all add: marginal_regression_def doRegression_def Let_def)

lemma calculate_marginal_eq:
  assumes "length (err_f st) = length (ovmd (marginal_regression (marginal_reduce st peers) h))"
  shows "snd (calculate_marginal erf st h peers)
     = (\<Sum>i<length (ovmd (marginal_regression (marginal_reduce st peers) h)).
          - ln (1 / (2 * marginal_dev (marginal_regression (marginal_reduce st peers) h) i)
                * erf (marginal_dev (marginal_regression (marginal_reduce st peers) h) i * inv_sqrt2)))
       * (kbt st / (1 / real (nrep st)))"
    and "sigma0 (fst (calculate_marginal erf st h peers)) = sigma0 st"
proof -
  let ?st2 = "marginal_regression (marginal_reduce st peers) h"
  let ?n = "length (ovmd ?st2)"
  have "length (err_f ?st2) = ?n"
    using assms by (simp add: marginal_regression_fields marginal_reduce_fields)
  then have "\<forall>i\<in>set [0..<?n]. i < length (err_f ?st2)" by simp
  note m = marginal_fold [OF this, of erf 0]
  obtain st3 ene where r: "fold (marginal_component erf) [0..<?n] (?st2, 0) = (st3, ene)"
    by (cases "fold (marginal_component erf) [0..<?n] (?st2, 0)") auto
  from m r have same: "marginal_same st3 ?st2"
    and ene: "ene = (\<Sum>i\<leftarrow>[0..<?n]. - ln (1 / (2 * marginal_dev ?st2 i)
                                          * erf (marginal_dev ?st2 i * inv_sqrt2)))"
    by simp_all
  have k: "kbt st3 = kbt st" "sigma0 st3 = sigma0 st"
    using same by (simp_all add: marginal_same_def marginal_regression_fields marginal_reduce_fields)
  have c: "calculate_marginal erf st h peers = (st3, ene * (kbt st3 / (1 / real (nrep st))))"
    by (simp add: calculate_marginal_def Let_def r)
  show "snd (calculate_marginal erf st h peers)
     = (\<Sum>i<?n. - ln (1 / (2 * marginal_dev ?st2 i) * erf (marginal_dev ?st2 i * inv_sqrt2)))
       * (kbt st / (1 / real (nrep st)))"
    unfolding c ene by (simp add: k sum_list_sum_nth atLeast0LessThan)
  show "sigma0 (fst (calculate_marginal erf st h peers)) = sigma0 st"
    unfolding c by (simp add: k)
qed

lemma set_sampling_parameters_marginal:
  assumes "\<not> do_sampling st" and "sigma_mean st = []" and "sigma0 st = []"
    and "\<forall>b\<in>set (GMM_d_beta st). b = 0 \<or> b = 1"
    and "length (GMM_d_beta st) = length (GMM_d_m st)"
    and "i < length (GMM_d_m st)"
  shows "sigma0 (set_sampling_parameters e h c ini st) ! i
           = sqrt ((s0_exp_of e i)\<^sup>2 + (sigma_mean (set_sampling_parameters e h c ini st) ! i)\<^sup>2)"
    and "sigma_mean (set_sampling_parameters e h c ini st) ! i
           = (if GMM_d_beta st ! i = 1 then h else c) * ovdd st ! i"
proof -
  let ?ob = "sort (ovdd st) ! (length (sort (ovdd st)) div 2)"
  let ?om = "max_element (ovdd st)"
  let ?st0 = "st\<lparr>dsigma := dsigma st * ?ob\<rparr>"
  have pre: "\<not> do_sampling ?st0" "sigma_mean ?st0 = []" "sigma0 ?st0 = []"
    "\<forall>b\<in>set (GMM_d_beta ?st0). b = 0 \<or> b = 1"
    using assms(1-4) by simp_all
  have le: "length (GMM_d_m ?st0) \<le> length (GMM_d_beta ?st0)" using assms(5) by simp
  have eq: "set_sampling_parameters e h c ini st
              = fold (set_sampling_parameter e h c ini ?ob ?om) [0..<length (GMM_d_m ?st0)] ?st0"
    by (simp add: set_sampling_parameters_def Let_def)
  show "sigma0 (set_sampling_parameters e h c ini st) ! i
           = sqrt ((s0_exp_of e i)\<^sup>2 + (sigma_mean (set_sampling_parameters e h c ini st) ! i)\<^sup>2)"
    unfolding eq ssp_fold_marginal [OF pre le]
    using assms(6) by (simp add: power2_eq_square)
  show "sigma_mean (set_sampling_parameters e h c ini st) ! i
           = (if GMM_d_beta st ! i = 1 then h else c) * ovdd st ! i"
    unfolding eq ssp_fold_marginal [OF pre le]
    using assms(6) by (simp add: sigma_mean_of_def)
qed

text \<open>
  C2. In marginal mode, with \<open>dev = (scale * ovmd - ovdd) / sigma0\<close> nonzero in every
  component, the value set for \<^verbatim>\<open>scoreb\<close> is the sum of
  \<open>- ln (1 / (2 * dev) * erf (dev * inv_sqrt2))\<close> times \<open>kbt / escale\<close>, \<open>escale = 1 / nrep\<close>;
  \<^verbatim>\<open>inv_sqrt2_\<close> is the constructor's decimal constant for \<open>1 / sqrt 2\<close>, so that the
  argument of \<^verbatim>\<open>erf\<close> is \<open>dev / sqrt 2\<close> up to \<open>|dev| / 10 ^ 15\<close>. \<^verbatim>\<open>calculate_marginal\<close> leaves \<^verbatim>\<open>sigma0_\<close> as it is, and the
  constructor sets it to \<open>sqrt (s0_exp\<^sup>2 + sigma_mean\<^sup>2)\<close>. At \<open>dev = 0\<close> the source divides by
  zero, which the model does not follow.
\<close>

theorem marginal_score:
  "(length (err_f st) = length (ovmd (marginal_regression (marginal_reduce st peers) h))
    \<and> (\<forall>i<length (ovmd (marginal_regression (marginal_reduce st peers) h)).
          (scale (marginal_regression (marginal_reduce st peers) h)
             * ovmd (marginal_regression (marginal_reduce st peers) h) ! i - ovdd st ! i)
          / sigma0 st ! i \<noteq> 0) \<longrightarrow>
      snd (calculate_marginal erf st h peers)
        = (\<Sum>i<length (ovmd (marginal_regression (marginal_reduce st peers) h)).
             let dev = (scale (marginal_regression (marginal_reduce st peers) h)
                          * ovmd (marginal_regression (marginal_reduce st peers) h) ! i - ovdd st ! i)
                       / sigma0 st ! i
             in - ln (1 / (2 * dev) * erf (dev * inv_sqrt2)))
          * (kbt st / (1 / real (nrep st))))
   \<and> \<bar>x * inv_sqrt2 - x / sqrt 2\<bar> \<le> \<bar>x\<bar> / 10 ^ 15
   \<and> sigma0 (fst (calculate_marginal erf st h peers)) = sigma0 st
   \<and> (\<not> do_sampling sti \<and> sigma_mean sti = [] \<and> sigma0 sti = []
       \<and> list_all (\<lambda>b. b = 0 \<or> b = 1) (GMM_d_beta sti)
       \<and> length (GMM_d_beta sti) = length (GMM_d_m sti) \<longrightarrow>
       (\<forall>i<length (GMM_d_m sti).
          sigma0 (set_sampling_parameters exp_err sigma_mean_h sigma_mean_c sigma_ini sti) ! i
            = sqrt ((case exp_err of None \<Rightarrow> 0 | Some e \<Rightarrow> e ! i)\<^sup>2
                    + (sigma_mean (set_sampling_parameters exp_err sigma_mean_h sigma_mean_c
                                     sigma_ini sti) ! i)\<^sup>2)))"
proof (intro conjI impI allI)
  let ?st2 = "marginal_regression (marginal_reduce st peers) h"
  assume a: "length (err_f st) = length (ovmd ?st2)
    \<and> (\<forall>i<length (ovmd ?st2). (scale ?st2 * ovmd ?st2 ! i - ovdd st ! i) / sigma0 st ! i \<noteq> 0)"
  have d: "marginal_dev ?st2 i = (scale ?st2 * ovmd ?st2 ! i - ovdd st ! i) / sigma0 st ! i" for i
    by (simp add: marginal_dev_def marginal_regression_fields marginal_reduce_fields)
  from a have "length (err_f st) = length (ovmd ?st2)" by simp
  from calculate_marginal_eq(1) [OF this, of erf]
  show "snd (calculate_marginal erf st h peers)
        = (\<Sum>i<length (ovmd ?st2).
             let dev = (scale ?st2 * ovmd ?st2 ! i - ovdd st ! i) / sigma0 st ! i
             in - ln (1 / (2 * dev) * erf (dev * inv_sqrt2)))
          * (kbt st / (1 / real (nrep st)))"
    by (simp only: d Let_def)
next
  have "\<bar>x * inv_sqrt2 - x / sqrt 2\<bar> = \<bar>x\<bar> * \<bar>inv_sqrt2 - 1 / sqrt 2\<bar>"
    by (simp add: abs_mult [symmetric] right_diff_distrib)
  also have "\<dots> \<le> \<bar>x\<bar> * (1 / 10 ^ 15)"
    using inv_sqrt2_close by (intro mult_left_mono) simp_all
  finally show "\<bar>x * inv_sqrt2 - x / sqrt 2\<bar> \<le> \<bar>x\<bar> / 10 ^ 15" by simp
next
  have f: "sigma0 (fst (fold (marginal_component erf) js (s, x))) = sigma0 s" for js s x
    by (induction js arbitrary: s x) (simp_all add: marginal_component_step)
  have g: "fst (case q of (a, b) \<Rightarrow> (a, b * (kbt a / e))) = fst q" for q :: "emmi \<times> real" and e
    by (cases q) simp
  have "sigma0 (fst (calculate_marginal erf st h peers)) = sigma0 st"
    unfolding calculate_marginal_def Let_def g f
    by (simp add: marginal_regression_fields marginal_reduce_fields)
  then show "sigma0 (fst (calculate_marginal erf st h peers)) = sigma0 st" .
next
  fix i
  assume a: "\<not> do_sampling sti \<and> sigma_mean sti = [] \<and> sigma0 sti = []
       \<and> list_all (\<lambda>b. b = 0 \<or> b = 1) (GMM_d_beta sti)
       \<and> length (GMM_d_beta sti) = length (GMM_d_m sti)"
    and i: "i < length (GMM_d_m sti)"
  from a have "\<forall>b\<in>set (GMM_d_beta sti). b = 0 \<or> b = 1" by (simp add: list_all_iff)
  with a i have "sigma0 (set_sampling_parameters exp_err sigma_mean_h sigma_mean_c sigma_ini sti) ! i
           = sqrt ((s0_exp_of exp_err i)\<^sup>2
               + (sigma_mean (set_sampling_parameters exp_err sigma_mean_h sigma_mean_c sigma_ini sti) ! i)\<^sup>2)"
    by (intro set_sampling_parameters_marginal(1)) simp_all
  then show "sigma0 (set_sampling_parameters exp_err sigma_mean_h sigma_mean_c sigma_ini sti) ! i
            = sqrt ((case exp_err of None \<Rightarrow> 0 | Some e \<Rightarrow> e ! i)\<^sup>2
                    + (sigma_mean (set_sampling_parameters exp_err sigma_mean_h sigma_mean_c
                                     sigma_ini sti) ! i)\<^sup>2)"
    by (simp add: s0_exp_of_def)
qed

lemma marginal_example_fields:
  "ovmd marginal_example = [2]" "ovdd marginal_example = [1]" "sigma0 marginal_example = [1]"
  "err_f marginal_example = [0]" "kbt marginal_example = 1" "scale marginal_example = 1"
  "nrep marginal_example = 1" "no_aver marginal_example = False" "nregres marginal_example = 0"
  by (simp_all add: marginal_example_def example_state_def)

lemma marginal_example_regressed:
  "marginal_regression (marginal_reduce marginal_example one_replica_more) host_example
     = marginal_example"
  by (simp add: marginal_regression_def marginal_reduce_def Let_def marginal_example_fields)

theorem marginal_score_witness:
  "snd (calculate_marginal erf_series marginal_example host_example one_replica_more)
     = - ln (1 / 2 * erf_series inv_sqrt2)
   \<and> sigma0 (set_sampling_parameters (Some [3]) 1 1 1 marginal_initial) ! 0 = 5"
proof -
  note t = marginal_score [of marginal_example one_replica_more host_example erf_series 1
             marginal_initial "Some [3]" 1 1 1]
  have a: "length (err_f marginal_example)
             = length (ovmd (marginal_regression (marginal_reduce marginal_example one_replica_more)
                               host_example))
    \<and> (\<forall>i<length (ovmd (marginal_regression (marginal_reduce marginal_example one_replica_more)
                             host_example)).
          (scale (marginal_regression (marginal_reduce marginal_example one_replica_more) host_example)
             * ovmd (marginal_regression (marginal_reduce marginal_example one_replica_more)
                       host_example) ! i - ovdd marginal_example ! i)
          / sigma0 marginal_example ! i \<noteq> 0)"
    by (simp add: marginal_example_regressed marginal_example_fields)
  have b: "\<not> do_sampling marginal_initial \<and> sigma_mean marginal_initial = []
       \<and> sigma0 marginal_initial = []
       \<and> list_all (\<lambda>b. b = 0 \<or> b = 1) (GMM_d_beta marginal_initial)
       \<and> length (GMM_d_beta marginal_initial) = length (GMM_d_m marginal_initial)"
    by (simp add: marginal_initial_def example_state_def)
  have c: "0 < length (GMM_d_m marginal_initial)"
    by (simp add: marginal_initial_def example_state_def)
  have m: "sigma_mean (set_sampling_parameters (Some [3]) 1 1 1 marginal_initial) ! 0 = 4"
    using set_sampling_parameters_marginal(2) [of marginal_initial 0 "Some [3]" 1 1 1] b c
    by (simp add: list_all_iff marginal_initial_def example_state_def)
  from t [THEN conjunct1, rule_format, OF a]
  have r1: "snd (calculate_marginal erf_series marginal_example host_example one_replica_more)
              = - ln (1 / 2 * erf_series inv_sqrt2)"
    by (simp add: marginal_example_regressed marginal_example_fields)
  from t [THEN conjunct2, THEN conjunct2, THEN conjunct2, rule_format, OF b c]
  have r2: "sigma0 (set_sampling_parameters (Some [3]) 1 1 1 marginal_initial) ! 0 = 5"
    by (simp add: m)
  from r1 r2 show ?thesis by simp
qed

section \<open>The self overlap\<close>














section \<open>The neighbour list\<close>

lemma nl_atom_nl_ov:
  "nl_atom st h id_d im (ov_l, ov_m, ov_tot)
     = (case nl_ov st h id_d im of
          None \<Rightarrow> (ov_l, ov_m, ov_tot)
        | Some ov \<Rightarrow> (ov_l @ [ov], ov_m(ov \<mapsto> im), ov_tot + ov))"
  by (simp add: nl_atom_def nl_ov_def Let_def)

lemma nl_fold:
  assumes "fold (nl_atom st h id_d) js (ov_l, ov_m, ov_tot) = (ov_l', ov_m', ov_tot')"
  shows "ov_l' = ov_l @ List.map_filter (nl_ov st h id_d) js
       \<and> ov_tot' = ov_tot + sum_list (List.map_filter (nl_ov st h id_d) js)
       \<and> dom ov_m' = dom ov_m \<union> set (List.map_filter (nl_ov st h id_d) js)
       \<and> (\<forall>k im. ov_m' k = Some im \<longrightarrow>
             ov_m k = Some im \<or> (im \<in> set js \<and> nl_ov st h id_d im = Some k))"
  using assms
proof (induction js arbitrary: ov_l ov_m ov_tot)
  case Nil
  then show ?case by simp
next
  case (Cons j js)
  show ?case
  proof (cases "nl_ov st h id_d j")
    case None
    with Cons.prems have "fold (nl_atom st h id_d) js (ov_l, ov_m, ov_tot) = (ov_l', ov_m', ov_tot')"
      by (simp add: nl_atom_nl_ov)
    from Cons.IH [OF this] None show ?thesis
      by auto
  next
    case (Some ov)
    with Cons.prems have "fold (nl_atom st h id_d) js (ov_l @ [ov], ov_m(ov \<mapsto> j), ov_tot + ov)
                            = (ov_l', ov_m', ov_tot')"
      by (simp add: nl_atom_nl_ov)
    from Cons.IH [OF this] Some show ?thesis
      by (auto split: if_splits)
  qed
qed

lemma nl_candidates_props:
  assumes "nl_candidates st h id_d = (ov_l, ov_m, ov_tot)"
  shows "ov_tot = sum_list ov_l" and "dom ov_m = set ov_l"
    and "ov_m k = Some im \<Longrightarrow> im < length (GMM_m_type st) \<and> nl_ov st h id_d im = Some k"
  using nl_fold [OF assms [unfolded nl_candidates_def]] by auto

lemma nl_integrate_removed:
  "nl_integrate xs res ov_cut ov_m
     = (\<lambda>k. if k \<in> set (nl_removed xs res ov_cut) then None else ov_m k)"
  by (induction xs arbitrary: res ov_m) (auto simp: Let_def fun_eq_iff)

lemma nl_removed_kept: "nl_removed xs res ov_cut @ nl_kept xs res ov_cut = xs"
  by (induction xs arbitrary: res) auto

lemma nl_removed_below:
  "res < ov_cut \<Longrightarrow> res + sum_list (nl_removed xs res ov_cut) < ov_cut"
proof (induction xs arbitrary: res)
  case Nil
  then show ?case by simp
next
  case (Cons x xs)
  show ?case
  proof (cases "res + x \<ge> ov_cut")
    case True
    then show ?thesis using Cons.prems by simp
  next
    case False
    then have "res + x < ov_cut" by simp
    from Cons.IH [OF this] False show ?thesis by (simp add: add.assoc)
  qed
qed

lemma nl_kept_reaches:
  "ov_cut \<le> res + sum_list xs \<Longrightarrow> res < ov_cut \<Longrightarrow>
   nl_kept xs res ov_cut \<noteq> []
   \<and> ov_cut \<le> res + sum_list (nl_removed xs res ov_cut) + hd (nl_kept xs res ov_cut)"
proof (induction xs arbitrary: res)
  case Nil
  then show ?case by simp
next
  case (Cons x xs)
  show ?case
  proof (cases "res + x \<ge> ov_cut")
    case True
    then show ?thesis by simp
  next
    case False
    then have "res + x < ov_cut" by simp
    moreover have "ov_cut \<le> (res + x) + sum_list xs" using Cons.prems(1) by simp
    ultimately show ?thesis using Cons.IH [of "res + x"] False by (simp add: add.assoc)
  qed
qed

lemma sorted_hd_le: "sorted xs \<Longrightarrow> x \<in> set xs \<Longrightarrow> hd xs \<le> (x::real)"
  by (cases xs) auto

lemma nl_retained_keys:
  assumes "nl_candidates st h id_d = (ov_l, ov_m, ov_tot)" and "ov_l \<noteq> []" and "distinct ov_l"
  shows "map fst (nl_retained st h id_d) = nl_kept (sort ov_l) 0 (ov_tot * nl_cutoff st)"
proof -
  let ?s = "sort ov_l"
  let ?cut = "ov_tot * nl_cutoff st"
  let ?r = "nl_removed ?s 0 ?cut"
  let ?k = "nl_kept ?s 0 ?cut"
  have dom: "dom ov_m = set ov_l" using assms(1) by (rule nl_candidates_props)
  have d: "distinct ?s" using assms(3) by simp
  have split: "?r @ ?k = ?s" by (rule nl_removed_kept)
  with d have dk: "distinct (?r @ ?k)" by simp
  have keep: "(nl_integrate ?s 0 ?cut ov_m) k \<noteq> None \<longleftrightarrow> k \<notin> set ?r" if "k \<in> set ?s" for k
  proof -
    from that dom have "ov_m k \<noteq> None" by auto
    then show ?thesis by (simp add: nl_integrate_removed)
  qed
  have "filter (\<lambda>k. (nl_integrate ?s 0 ?cut ov_m) k \<noteq> None) ?s = filter (\<lambda>k. k \<notin> set ?r) ?s"
  proof (rule filter_cong)
    show "?s = ?s" ..
  next
    fix k assume "k \<in> set ?s"
    then show "((nl_integrate ?s 0 ?cut ov_m) k \<noteq> None) = (k \<notin> set ?r)" by (rule keep)
  qed
  also have "\<dots> = filter (\<lambda>k. k \<notin> set ?r) (?r @ ?k)" by (simp only: split)
  also have "\<dots> = ?k"
  proof -
    have "filter (\<lambda>k. k \<notin> set ?r) ?r = []" by (simp add: filter_empty_conv)
    moreover have "filter (\<lambda>k. k \<notin> set ?r) ?k = ?k"
      using dk by (auto simp: filter_id_conv)
    ultimately show ?thesis by simp
  qed
  finally have f: "filter (\<lambda>k. (nl_integrate ?s 0 ?cut ov_m) k \<noteq> None) ?s = ?k" .
  have rd: "remdups ?s = ?s" using d by (rule distinct_remdups_id)
  show ?thesis
    using assms(2) f by (simp add: nl_retained_def assms(1) Let_def rd comp_def)
qed

lemma nl_retained_entries:
  assumes "nl_candidates st h id_d = (ov_l, ov_m, ov_tot)" and "(k, im) \<in> set (nl_retained st h id_d)"
  shows "im < length (GMM_m_type st) \<and> nl_ov st h id_d im = Some k"
proof -
  let ?m = "nl_integrate (sort ov_l) 0 (ov_tot * nl_cutoff st) ov_m"
  from assms(2) have "?m k \<noteq> None" and "im = the (?m k)"
    by (auto simp: nl_retained_def assms(1) Let_def split: if_splits)
  then have "?m k = Some im" by auto
  then have "ov_m k = Some im" by (simp add: nl_integrate_removed split: if_splits)
  then show ?thesis using nl_candidates_props(3) [OF assms(1)] by simp
qed

lemma sum_list_insort: "sum_list (insort x xs) = x + sum_list (xs::real list)"
  by (induction xs) simp_all

lemma sum_list_sort: "sum_list (sort xs) = sum_list (xs::real list)"
  by (induction xs) (simp_all add: sum_list_insort)

lemma nl_mass:
  assumes "nl_candidates st h id_d = (ov_l, ov_m, ov_tot)" and "ov_l \<noteq> []"
    and "0 < nl_cutoff st" and "nl_cutoff st \<le> 1"
    and "\<forall>x\<in>set ov_l. 0 < x" and "distinct ov_l"
  shows "(1 - nl_cutoff st) * ov_tot < sum_list (map fst (nl_retained st h id_d))"
    and "x \<in> set (map fst (nl_retained st h id_d)) \<Longrightarrow>
         sum_list (map fst (nl_retained st h id_d)) - x \<le> (1 - nl_cutoff st) * ov_tot"
proof -
  let ?s = "sort ov_l"
  let ?cut = "ov_tot * nl_cutoff st"
  let ?r = "nl_removed ?s 0 ?cut"
  let ?k = "nl_kept ?s 0 ?cut"
  have keys: "map fst (nl_retained st h id_d) = ?k"
    using assms(1,2,6) by (rule nl_retained_keys)
  have tot: "ov_tot = sum_list ov_l" using assms(1) by (rule nl_candidates_props)
  have "0 < sum_list ov_l"
    using assms(2,5) by (cases ov_l) (auto intro: add_pos_nonneg sum_list_nonneg less_imp_le)
  then have pos: "0 < ov_tot" by (simp add: tot)
  then have cut0: "0 < ?cut" using assms(3) by simp
  have "?cut \<le> ov_tot * 1" using assms(4) pos by (intro mult_left_mono) simp_all
  then have cut1: "?cut \<le> ov_tot" by simp
  have sums: "sum_list ?s = ov_tot"
    by (simp add: sum_list_sort tot)
  have "sum_list (?r @ ?k) = ov_tot" by (simp only: nl_removed_kept sums)
  then have split: "sum_list ?r + sum_list ?k = ov_tot" by simp
  have below: "sum_list ?r < ?cut" using nl_removed_below [OF cut0, of ?s] by simp
  show "(1 - nl_cutoff st) * ov_tot < sum_list (map fst (nl_retained st h id_d))"
    unfolding keys using split below by (simp add: algebra_simps)
  assume "x \<in> set (map fst (nl_retained st h id_d))"
  then have x: "x \<in> set ?k" by (simp only: keys)
  have reach: "?k \<noteq> [] \<and> ?cut \<le> 0 + sum_list ?r + hd ?k"
    using cut1 cut0 by (intro nl_kept_reaches) (simp_all add: sums)
  have "sorted (?r @ ?k)" by (simp only: nl_removed_kept) simp
  then have "sorted ?k" by (simp add: sorted_append)
  then have "hd ?k \<le> x" using x by (rule sorted_hd_le)
  with reach have "?cut \<le> sum_list ?r + x" by simp
  then show "sum_list (map fst (nl_retained st h id_d)) - x \<le> (1 - nl_cutoff st) * ov_tot"
    unfolding keys using split by (simp add: algebra_simps)
qed

text \<open>
  C1, as the code has it. \<^verbatim>\<open>nl_cutoff_\<close> is the share of the overlap mass that is taken
  away: for a cutoff in \<open>(0, 1]\<close> and candidates with positive, pairwise different
  overlaps, the atoms kept for a component hold more than \<open>(1 - nl_cutoff)\<close> of the total
  overlap, and less or as much once any one of them is left out. Each kept entry is an
  atom with its overlap from the table.
\<close>

theorem neighbor_list_mass:
  assumes "nl_candidates st h id_d = (ov_l, ov_m, ov_tot)" and "ov_l \<noteq> []"
    and "0 < nl_cutoff st" and "nl_cutoff st \<le> 1"
    and "\<forall>x\<in>set ov_l. 0 < x" and "distinct ov_l"
  shows "ov_tot = sum_list ov_l
       \<and> (1 - nl_cutoff st) * ov_tot < sum_list (map fst (nl_retained st h id_d))
       \<and> (\<forall>x\<in>set (map fst (nl_retained st h id_d)).
             sum_list (map fst (nl_retained st h id_d)) - x \<le> (1 - nl_cutoff st) * ov_tot)
       \<and> (\<forall>(k, im)\<in>set (nl_retained st h id_d).
             im < length (GMM_m_type st) \<and> nl_ov st h id_d im = Some k)
       \<and> nl_component st h id_d
           = map (\<lambda>(k, im). id_d * length (GMM_m_type st) + im) (nl_retained st h id_d)"
proof (intro conjI ballI)
  show "ov_tot = sum_list ov_l" using assms(1) by (rule nl_candidates_props)
  show "(1 - nl_cutoff st) * ov_tot < sum_list (map fst (nl_retained st h id_d))"
    using assms by (rule nl_mass)
  show "sum_list (map fst (nl_retained st h id_d)) - x \<le> (1 - nl_cutoff st) * ov_tot"
    if "x \<in> set (map fst (nl_retained st h id_d))" for x
    using assms that by (rule nl_mass)
  show "case e of (k, im) \<Rightarrow> im < length (GMM_m_type st) \<and> nl_ov st h id_d im = Some k"
    if "e \<in> set (nl_retained st h id_d)" for e
    using nl_retained_entries [OF assms(1), of "fst e" "snd e"] that by (cases e) simp
  show "nl_component st h id_d
           = map (\<lambda>(k, im). id_d * length (GMM_m_type st) + im) (nl_retained st h id_d)"
    by (simp add: nl_component_def)
qed

lemma nl_example_ov:
  "nl_ov nl_example nl_host 0 0 = Some 1" "nl_ov nl_example nl_host 0 (Suc 0) = Some 2"
  "nl_ov nl_example nl_host 0 2 = Some 3" "nl_ov nl_example nl_host 0 3 = Some 4"
  by (simp_all add: nl_ov_def nl_example_def example_state_def nl_host_def get_exp_overlap_def
        quadratic_form_def displacement_def delta_def c_round_def Let_def)

lemma nl_example_candidates:
  "nl_candidates nl_example nl_host 0
     = ([1, 2, 3, 4], [1 \<mapsto> 0, 2 \<mapsto> 1, 3 \<mapsto> 2, 4 \<mapsto> 3], 10)"
proof -
  have l: "length (GMM_m_type nl_example) = 4" by (simp add: nl_example_def example_state_def)
  have u: "[0..<4] = [0, Suc 0, 2, 3]" by code_simp
  show ?thesis
    by (simp add: nl_candidates_def l u nl_atom_nl_ov nl_example_ov)
qed

lemma nl_example_retained: "nl_retained nl_example nl_host 0 = [(4, 3)]"
proof -
  have c: "nl_cutoff nl_example = 3 / 4" by (simp add: nl_example_def example_state_def)
  show ?thesis
    by (simp add: nl_retained_def nl_example_candidates c Let_def)
qed

text \<open>
  C1 as stated fails for four atoms with overlaps \<open>1, 2, 3, 4\<close> and \<^verbatim>\<open>NL_CUTOFF\<close> \<open>3 / 4\<close>:
  the atoms with overlaps \<open>1, 2, 3\<close> are taken away before the sum reaches \<open>7.5\<close>, and the
  one atom kept holds \<open>4\<close> of \<open>10\<close>.
\<close>

theorem neighbor_list_mass_counterexample:
  "nl_retained nl_example nl_host 0 = [(4, 3)]
   \<and> snd (snd (nl_candidates nl_example nl_host 0)) = 10
   \<and> sum_list (map fst (nl_retained nl_example nl_host 0))
       < nl_cutoff nl_example * snd (snd (nl_candidates nl_example nl_host 0))"
proof -
  have c: "nl_cutoff nl_example = 3 / 4" by (simp add: nl_example_def example_state_def)
  show ?thesis by (simp add: nl_example_retained nl_example_candidates c)
qed

theorem neighbor_list_mass_witness:
  "(1 - nl_cutoff nl_example) * 10 < sum_list (map fst (nl_retained nl_example nl_host 0))
   \<and> nl_component nl_example nl_host 0 = [3]"
proof -
  have c: "0 < nl_cutoff nl_example" "nl_cutoff nl_example \<le> 1"
    by (simp_all add: nl_example_def example_state_def)
  have p: "[1, 2, 3, 4 :: real] \<noteq> []" "\<forall>x\<in>set [1, 2, 3, 4 :: real]. 0 < x"
    "distinct [1, 2, 3, 4 :: real]"
    by simp_all
  have l: "length (GMM_m_type nl_example) = 4" by (simp add: nl_example_def example_state_def)
  note t = neighbor_list_mass [OF nl_example_candidates p(1) c p(2,3)]
  from t have "(1 - nl_cutoff nl_example) * 10 < sum_list (map fst (nl_retained nl_example nl_host 0))"
    by simp
  moreover from t have "nl_component nl_example nl_host 0
           = map (\<lambda>(k, im). 0 * length (GMM_m_type nl_example) + im) (nl_retained nl_example nl_host 0)"
    by simp
  then have "nl_component nl_example nl_host 0 = [3]"
    by (simp add: nl_example_retained)
  ultimately show ?thesis by simp
qed

text \<open>
  Why the overlaps are taken to be different: two atoms with the same overlap share one
  key of \<^verbatim>\<open>ov_m\<close>, and only the later one is listed.
\<close>

lemma nl_equal_overlaps:
  "nl_candidates nl_equal_example nl_host 0 = ([5, 5], [5 \<mapsto> 1], 10)
   \<and> nl_retained nl_equal_example nl_host 0 = [(5, 1)]"
proof -
  have o: "nl_ov nl_equal_example nl_host 0 0 = Some 5"
    "nl_ov nl_equal_example nl_host 0 (Suc 0) = Some 5"
    by (simp_all add: nl_ov_def nl_equal_example_def nl_example_def example_state_def nl_host_def
          get_exp_overlap_def quadratic_form_def displacement_def delta_def c_round_def Let_def)
  have l: "length (GMM_m_type nl_equal_example) = 2"
    by (simp add: nl_equal_example_def nl_example_def example_state_def)
  have u: "[0..<2] = [0, Suc 0]" by code_simp
  have c: "nl_candidates nl_equal_example nl_host 0 = ([5, 5], [5 \<mapsto> 1], 10)"
    by (simp add: nl_candidates_def l u nl_atom_nl_ov o)
  have k: "nl_cutoff nl_equal_example = 1 / 10"
    by (simp add: nl_equal_example_def nl_example_def example_state_def)
  have "nl_retained nl_equal_example nl_host 0 = [(5, 1)]"
    by (simp add: nl_retained_def c k Let_def)
  with c show ?thesis by simp
qed

end
